theory Spec2Isabelle
  imports Complex_Main "HOL-Library.Word" "HOL-Library.FSet" "HOL-Library.AList"
    "HOL-Library.Sublist" "HOL-Library.List_Lexorder" "HOL-Library.Char_ord"
begin

unbundle bit_operations_syntax

section \<open>Shared data model\<close>

text \<open>
  Python exceptions are values. Only the exception class is recorded; the
  message or offending key carried by the exception object is not modelled.
\<close>

datatype error = KeyError | ValueError | ZeroDivisionError | FileNotFoundError | IndexError

section \<open>Index compression (class \<open>CompressedIndex\<close>)\<close>

subsection \<open>Gap encoding\<close>

text \<open>
  \<open>compress_gap_encoding\<close> sorts its argument, keeps the first identifier and
  then appends, for \<open>i = 1 .. len - 1\<close>, the difference
  \<open>sorted_ids[i] - sorted_ids[i-1]\<close>. The \<open>for i in range(1, n)\<close> loop with
  \<open>append\<close> is a fold over the index list \<open>[1..<n]\<close>. Python integers are
  unbounded, hence \<open>int\<close>. Every index read below is in range: the sorted
  list is non-empty in the branch that reads it, and at step \<open>i\<close> the list
  under construction has exactly \<open>i\<close> elements.
\<close>

definition compress_gap_encoding :: "int list \<Rightarrow> int list" where
  "compress_gap_encoding doc_ids =
     (if doc_ids = [] then []
      else let sorted_ids = sort doc_ids
           in fold (\<lambda>i gaps. gaps @ [sorted_ids ! i - sorted_ids ! (i - 1)])
                [1..<length sorted_ids] [sorted_ids ! 0])"

definition decompress_gap_encoding :: "int list \<Rightarrow> int list" where
  "decompress_gap_encoding gaps =
     (if gaps = [] then []
      else fold (\<lambda>i doc_ids. doc_ids @ [doc_ids ! (i - 1) + gaps ! i])
             [1..<length gaps] [gaps ! 0])"

subsection \<open>Variable-byte encoding\<close>

text \<open>
  A Python \<open>bytes\<close> object is a list of 8-bit words. The constructor
  \<open>bytes(result)\<close> raises \<open>ValueError\<close> when an element is outside
  \<open>range(256)\<close>.
\<close>

type_synonym byte = "8 word"

definition bytes :: "int list \<Rightarrow> error + byte list" where
  "bytes vs =
     (if list_all (\<lambda>v. 0 \<le> v \<and> v < 256) vs then Inr (map word_of_int vs)
      else Inl ValueError)"

text \<open>
  The \<open>while number >= 128\<close> loop of \<open>compress_variable_byte\<close>. Python's
  \<open>%\<close> and \<open>//\<close> on integers are floor modulus and floor division, which is
  what \<open>mod\<close> and \<open>div\<close> are on \<open>int\<close>. The loop returns the list built so
  far together with the remaining number.
\<close>

function vb_encode_loop :: "int \<Rightarrow> int list \<Rightarrow> int list \<times> int" where
  "vb_encode_loop number result =
     (if number \<ge> 128
      then vb_encode_loop (number div 128) (result @ [(number mod 128) OR 128])
      else (result, number))"
  by pat_completeness auto
termination
  by (relation "measure (\<lambda>(number, result). nat number)") auto

declare vb_encode_loop.simps [simp del]

definition compress_variable_byte :: "int \<Rightarrow> error + byte list" where
  "compress_variable_byte number =
     (case vb_encode_loop number [] of
        (result, number') \<Rightarrow> bytes (result @ [number' mod 128]))"

text \<open>
  The \<open>for byte_val in byte_data\<close> loop of \<open>decompress_variable_byte\<close>, with
  its \<open>break\<close> on the first byte below 128. Iterating a \<open>bytes\<close> object
  yields integers in \<open>0..255\<close>, read here with \<open>uint\<close>.
\<close>

fun vb_decode_loop :: "byte list \<Rightarrow> int \<Rightarrow> nat \<Rightarrow> int" where
  "vb_decode_loop [] number shift = number"
| "vb_decode_loop (byte_val # rest) number shift =
     (let number' = number + push_bit shift (uint byte_val AND 127);
          shift' = shift + 7
      in if uint byte_val < 128 then number' else vb_decode_loop rest number' shift')"

definition decompress_variable_byte :: "byte list \<Rightarrow> int" where
  "decompress_variable_byte byte_data = vb_decode_loop byte_data 0 0"

section \<open>The inverted index (class \<open>InvertedIndex\<close>)\<close>

text \<open>
  A pre-processed document is the dictionary \<open>{'id': ..., 'tokens': ...}\<close>.
\<close>

record document =
  doc_id :: int
  tokens :: "string list"

text \<open>
  A Python \<open>dict\<close> keeps its keys in insertion order and is modelled as an
  association list: \<open>map_of\<close> is the lookup, \<open>AList.update\<close> is
  \<open>d[k] = v\<close> (an existing key keeps its position, a new key goes to the
  end), \<open>AList.delete\<close> is \<open>del d[k]\<close>. Two dictionaries are equal in
  Python when their lookups agree, that is when their \<open>map_of\<close> agree. A
  Python \<open>set\<close> of integers is a finite set.

  The attribute \<open>index\<close> is created as a \<open>defaultdict(set)\<close> by the
  constructor and replaced by a plain \<open>dict\<close> in \<open>load_index\<close>; the flag
  \<open>index_is_defaultdict\<close> records which of the two it currently is.
\<close>

record inverted_index =
  index :: "(string \<times> int fset) list"
  index_is_defaultdict :: bool
  doc_freq :: "(string \<times> int) list"

definition new_index :: inverted_index where
  "new_index = \<lparr>index = [], index_is_defaultdict = True, doc_freq = []\<rparr>"

text \<open>\<open>d.get(k, dflt)\<close>.\<close>

definition dict_get :: "('k \<times> 'v) list \<Rightarrow> 'k \<Rightarrow> 'v \<Rightarrow> 'v" where
  "dict_get d k dflt = (case map_of d k of None \<Rightarrow> dflt | Some v \<Rightarrow> v)"

text \<open>
  \<open>unique_tokens = set(tokens)\<close>, in the order in which the \<open>for\<close> loop
  visits it. Python leaves that order unspecified; the model fixes one
  duplicate-free enumeration, and the lemmas about the loop below are proved
  for every duplicate-free token list, so that they hold for any order.
\<close>

definition unique_tokens :: "string list \<Rightarrow> string list" where
  "unique_tokens toks = remdups toks"

text \<open>
  The subscript \<open>self.index[term]\<close>, as used in \<open>self.index[token].add(...)\<close>
  and \<open>self.index[term].update(...)\<close>: a \<open>defaultdict\<close> inserts an empty set
  for a missing key, a plain \<open>dict\<close> raises \<open>KeyError\<close>.
\<close>

definition index_getitem :: "inverted_index \<Rightarrow> string \<Rightarrow> error + (int fset \<times> inverted_index)" where
  "index_getitem idx term =
     (case map_of (index idx) term of
        Some doc_ids \<Rightarrow> Inr (doc_ids, idx)
      | None \<Rightarrow>
          if index_is_defaultdict idx
          then Inr ({||}, idx\<lparr>index := AList.update term {||} (index idx)\<rparr>)
          else Inl KeyError)"

text \<open>
  The loop \<open>for token in unique_tokens\<close>, which \<open>build_index\<close> and
  \<open>IndexMaintenance.add_document\<close> both contain: add the identifier to the
  posting set of the token, then set \<open>doc_freq[token]\<close> to
  \<open>doc_freq.get(token, 0) + 1\<close>.
\<close>

fun index_tokens :: "int \<Rightarrow> string list \<Rightarrow> inverted_index \<Rightarrow> error + inverted_index" where
  "index_tokens d [] idx = Inr idx"
| "index_tokens d (token # rest) idx =
     (case index_getitem idx token of
        Inl e \<Rightarrow> Inl e
      | Inr (doc_ids, idx1) \<Rightarrow>
          let idx2 = idx1\<lparr>index := AList.update token (finsert d doc_ids) (index idx1)\<rparr>;
              idx3 = idx2\<lparr>doc_freq :=
                       AList.update token (dict_get (doc_freq idx2) token 0 + 1) (doc_freq idx2)\<rparr>
          in index_tokens d rest idx3)"

fun build_loop :: "document list \<Rightarrow> inverted_index \<Rightarrow> error + inverted_index" where
  "build_loop [] idx = Inr idx"
| "build_loop (doc # docs) idx =
     (case index_tokens (doc_id doc) (unique_tokens (tokens doc)) idx of
        Inl e \<Rightarrow> Inl e
      | Inr idx' \<Rightarrow> build_loop docs idx')"

text \<open>
  \<open>build_index\<close> clears both dictionaries (\<open>clear()\<close> keeps the kind of
  dictionary) and runs the loop over the documents.
\<close>

definition build_index :: "inverted_index \<Rightarrow> document list \<Rightarrow> error + inverted_index" where
  "build_index idx processed_documents =
     build_loop processed_documents (idx\<lparr>index := [], doc_freq := []\<rparr>)"

definition get_posting_list :: "inverted_index \<Rightarrow> string \<Rightarrow> int fset" where
  "get_posting_list idx term = dict_get (index idx) term {||}"

subsection \<open>Persistence\<close>

text \<open>
  A file written by \<open>save_index\<close> holds one JSON object from terms to lists
  of identifiers; the file system maps a file name to the dictionary that
  \<open>json.load\<close> returns for that file. \<open>load_index\<close> on a missing file
  raises; other input/output failures are outside the model.
\<close>

type_synonym json_index = "(string \<times> int list) list"

type_synonym filesystem = "string \<rightharpoonup> json_index"

definition save_index :: "inverted_index \<Rightarrow> string \<Rightarrow> filesystem \<Rightarrow> filesystem" where
  "save_index idx filename fs =
     (let index_dict = map (\<lambda>(term, doc_ids). (term, sorted_list_of_fset doc_ids)) (index idx)
      in fs(filename \<mapsto> index_dict))"

definition load_index :: "inverted_index \<Rightarrow> string \<Rightarrow> filesystem \<Rightarrow> error + inverted_index" where
  "load_index idx filename fs =
     (case fs filename of
        None \<Rightarrow> Inl FileNotFoundError
      | Some index_dict \<Rightarrow>
          Inr (idx\<lparr>index := map (\<lambda>(term, doc_ids). (term, fset_of_list doc_ids)) index_dict,
                   index_is_defaultdict := False,
                   doc_freq := map (\<lambda>(term, doc_ids). (term, int (length doc_ids))) index_dict\<rparr>))"

section \<open>Index maintenance (class \<open>IndexMaintenance\<close>)\<close>

text \<open>
  The maintenance object holds a reference to the index and mutates it in
  place; the model passes the index in and returns the mutated index.
\<close>

definition add_document :: "inverted_index \<Rightarrow> int \<Rightarrow> string list \<Rightarrow> error + inverted_index" where
  "add_document idx d toks = index_tokens d (unique_tokens toks) idx"

text \<open>
  First loop of \<open>remove_document\<close>, over \<open>self.index.index.items()\<close>: where
  the posting set contains the identifier, remove it, decrement
  \<open>doc_freq[term]\<close> (a \<open>KeyError\<close> when the term has no frequency entry) and
  remember the term when the frequency has reached 0.
\<close>

fun remove_scan ::
  "int \<Rightarrow> (string \<times> int fset) list \<Rightarrow> inverted_index \<Rightarrow> string list
     \<Rightarrow> error + (inverted_index \<times> string list)" where
  "remove_scan d [] idx terms_to_remove = Inr (idx, terms_to_remove)"
| "remove_scan d ((term, doc_ids) # items) idx terms_to_remove =
     (if d |\<in>| doc_ids then
        (let idx1 = idx\<lparr>index := AList.update term (doc_ids |-| {|d|}) (index idx)\<rparr>
         in case map_of (doc_freq idx1) term of
              None \<Rightarrow> Inl KeyError
            | Some n \<Rightarrow>
                let idx2 = idx1\<lparr>doc_freq := AList.update term (n - 1) (doc_freq idx1)\<rparr>
                in remove_scan d items idx2
                     (if n - 1 = 0 then terms_to_remove @ [term] else terms_to_remove))
      else remove_scan d items idx terms_to_remove)"

text \<open>Second loop: \<open>del\<close> both entries of every remembered term.\<close>

fun remove_terms :: "string list \<Rightarrow> inverted_index \<Rightarrow> error + inverted_index" where
  "remove_terms [] idx = Inr idx"
| "remove_terms (term # rest) idx =
     (if map_of (index idx) term = None then Inl KeyError
      else if map_of (doc_freq idx) term = None then Inl KeyError
      else remove_terms rest
             (idx\<lparr>index := AList.delete term (index idx),
                  doc_freq := AList.delete term (doc_freq idx)\<rparr>))"

definition remove_document :: "inverted_index \<Rightarrow> int \<Rightarrow> error + inverted_index" where
  "remove_document idx d =
     (case remove_scan d (index idx) idx [] of
        Inl e \<Rightarrow> Inl e
      | Inr (idx', terms_to_remove) \<Rightarrow> remove_terms terms_to_remove idx')"

definition update_document :: "inverted_index \<Rightarrow> int \<Rightarrow> string list \<Rightarrow> error + inverted_index" where
  "update_document idx d new_tokens =
     (case remove_document idx d of
        Inl e \<Rightarrow> Inl e
      | Inr idx' \<Rightarrow> add_document idx' d new_tokens)"

text \<open>
  \<open>merge_indexes\<close>: for every term of the other index, union its posting set
  into the own one and set the frequency to the size of the result.
\<close>

fun merge_loop :: "(string \<times> int fset) list \<Rightarrow> inverted_index \<Rightarrow> error + inverted_index" where
  "merge_loop [] idx = Inr idx"
| "merge_loop ((term, doc_ids) # rest) idx =
     (case index_getitem idx term of
        Inl e \<Rightarrow> Inl e
      | Inr (own_ids, idx1) \<Rightarrow>
          let idx2 = idx1\<lparr>index := AList.update term (own_ids |\<union>| doc_ids) (index idx1)\<rparr>;
              idx3 = idx2\<lparr>doc_freq :=
                       AList.update term (int (fcard (own_ids |\<union>| doc_ids))) (doc_freq idx2)\<rparr>
          in merge_loop rest idx3)"

definition merge_indexes :: "inverted_index \<Rightarrow> (string \<times> int fset) list \<Rightarrow> error + inverted_index" where
  "merge_indexes idx other_index = merge_loop other_index idx"

subsection \<open>State predicates\<close>

text \<open>
  \<open>doc_freq_matches\<close>: for every term of the index, \<open>doc_freq[term]\<close> exists
  and equals \<open>len(index[term])\<close>. \<open>consistent\<close> adds that both association
  lists are dictionaries (no key twice) and that the frequency table has no
  term that the index lacks. \<open>no_empty_postings\<close>: no term has an empty
  posting set. \<open>doc_in_index\<close>: the identifier occurs in some posting set.
\<close>

definition doc_freq_matches :: "inverted_index \<Rightarrow> bool" where
  "doc_freq_matches idx =
     list_all (\<lambda>(term, doc_ids). map_of (doc_freq idx) term = Some (int (fcard doc_ids))) (index idx)"

definition consistent :: "inverted_index \<Rightarrow> bool" where
  "consistent idx \<longleftrightarrow>
     distinct (map fst (index idx)) \<and> distinct (map fst (doc_freq idx)) \<and>
     doc_freq_matches idx \<and>
     list_all (\<lambda>term. map_of (index idx) term \<noteq> None) (map fst (doc_freq idx))"

definition no_empty_postings :: "inverted_index \<Rightarrow> bool" where
  "no_empty_postings idx = list_all (\<lambda>(term, doc_ids). doc_ids \<noteq> {||}) (index idx)"

definition doc_in_index :: "inverted_index \<Rightarrow> int \<Rightarrow> bool" where
  "doc_in_index idx d = list_ex (\<lambda>(term, doc_ids). d |\<in>| doc_ids) (index idx)"

section \<open>Parallel construction (class \<open>ParallelIndexBuilder\<close>)\<close>

text \<open>
  A raw document is the dictionary \<open>{'id': ..., 'text': ...}\<close>. Text
  pre-processing (\<open>CorpusProcessor.preprocess_text\<close>) depends on NLTK and is
  a parameter: a function of the text for one processor, of the language and
  the text where a processor is created per batch.
\<close>

record raw_document =
  raw_id :: int
  raw_text :: string

definition preprocess_corpus :: "(string \<Rightarrow> string list) \<Rightarrow> raw_document list \<Rightarrow> document list" where
  "preprocess_corpus preprocess_text documents =
     fold (\<lambda>doc processed_documents.
             processed_documents @ [\<lparr>doc_id = raw_id doc, tokens = preprocess_text (raw_text doc)\<rparr>])
       documents []"

definition process_document_batch ::
  "(string \<Rightarrow> string \<Rightarrow> string list) \<Rightarrow> raw_document list \<times> string \<Rightarrow> document list" where
  "process_document_batch preprocess_text args =
     (case args of (doc_batch, language) \<Rightarrow>
        fold (\<lambda>doc results.
                results @ [\<lparr>doc_id = raw_id doc, tokens = preprocess_text language (raw_text doc)\<rparr>])
          doc_batch [])"

text \<open>The constructor: \<open>self.num_workers = num_workers or mp.cpu_count()\<close>.\<close>

definition parallel_index_builder :: "int option \<Rightarrow> int \<Rightarrow> int" where
  "parallel_index_builder num_workers cpu_count =
     (case num_workers of
        None \<Rightarrow> cpu_count
      | Some n \<Rightarrow> if n = 0 then cpu_count else n)"

text \<open>
  \<open>for i in range(0, len(documents), batch_size): batches.append(documents[i:i+batch_size])\<close>.
  The caller passes \<open>max(1, ...)\<close>, so the step is never 0.
\<close>

function make_batches :: "nat \<Rightarrow> 'a list \<Rightarrow> nat \<Rightarrow> 'a list list" where
  "make_batches batch_size documents i =
     (if batch_size = 0 \<or> length documents \<le> i then []
      else take batch_size (drop i documents) # make_batches batch_size documents (i + batch_size))"
  by pat_completeness auto
termination
  by (relation "measure (\<lambda>(batch_size, documents, i). length documents - i)") auto

declare make_batches.simps [simp del]

text \<open>
  \<open>build_index_parallel\<close>. The floor division raises on a zero worker
  count and \<open>ProcessPoolExecutor\<close> rejects a non-positive one.
  \<open>executor.map\<close> returns the results in the order of its inputs, whichever
  worker finishes first, and is the \<open>map\<close> below; the pre-processing
  function is total, so no worker fails.
\<close>

definition build_index_parallel ::
  "(string \<Rightarrow> string \<Rightarrow> string list) \<Rightarrow> int \<Rightarrow> raw_document list \<Rightarrow> string
     \<Rightarrow> error + (inverted_index \<times> document list)" where
  "build_index_parallel preprocess_text num_workers documents language =
     (if num_workers = 0 then Inl ZeroDivisionError
      else
        let batch_size = max 1 (int (length documents) div num_workers);
            batches = make_batches (nat batch_size) documents 0
        in if num_workers \<le> 0 then Inl ValueError
           else
             let results = map (\<lambda>batch. process_document_batch preprocess_text (batch, language))
                             batches;
                 processed_docs = fold (\<lambda>batch_results processed_docs.
                                          processed_docs @ batch_results) results []
             in case build_index new_index processed_docs of
                  Inl e \<Rightarrow> Inl e
                | Inr built_index \<Rightarrow> Inr (built_index, processed_docs))"

section \<open>Ranking models: shared operations\<close>

text \<open>
  The models keep term counts in \<open>defaultdict(lambda: defaultdict(int))\<close>,
  a dictionary of dictionaries. \<open>nested_get\<close> is the read
  \<open>tf[doc_id][term]\<close> (0 for a missing entry) and \<open>nested_incr\<close> is
  \<open>tf[doc_id][term] += 1\<close>. A read of a missing entry also stores the
  default in the Python dictionary; the models never test for the presence of
  an entry after such a read, so the stored default is not modelled.

  In the language model and in the vector-space model Python floats are
  idealised as real numbers: what is proved of these two models (which branch
  a computation takes, in which order results are returned) does not depend
  on rounding.
\<close>

definition nested_get :: "('a \<times> ('b \<times> int) list) list \<Rightarrow> 'a \<Rightarrow> 'b \<Rightarrow> int" where
  "nested_get tf d t = dict_get (dict_get tf d []) t 0"

definition nested_incr :: "('a \<times> ('b \<times> int) list) list \<Rightarrow> 'a \<Rightarrow> 'b \<Rightarrow> ('a \<times> ('b \<times> int) list) list" where
  "nested_incr tf d t =
     (let inner = dict_get tf d []
      in AList.update d (AList.update t (dict_get inner t 0 + 1) inner) tf)"

text \<open>
  The order of two BM25 scores does depend on rounding, so BM25 is evaluated
  in floating-point arithmetic. A Python float is an IEEE double: an
  arithmetic operation returns its exact result rounded to a double, an
  integer operand of a mixed operation is first converted, which rounds it as
  well, and \<open>math.log10\<close> is the approximation of the C library.
  \<open>fl_round\<close> is the rounding and \<open>fl_log10\<close> the library logarithm on
  positive arguments; the double constants \<open>1\<close> and \<open>0.5\<close> are exact.
  \<open>exact_arith\<close> is the arithmetic that does not round.

  \<open>rounds_within u fl\<close> is the standard model of rounding: the relative
  error of every rounding is at most the unit roundoff \<open>u\<close>. Rounding to the
  nearest double satisfies it with \<open>u = 1 / 2 ^ 53\<close> for every operation
  that neither overflows nor underflows.
\<close>

record float_model =
  fl_round :: "real \<Rightarrow> real"
  fl_log10 :: "real \<Rightarrow> real"

definition exact_arith :: float_model where
  "exact_arith = \<lparr>fl_round = (\<lambda>x. x), fl_log10 = log 10\<rparr>"

definition rounds_within :: "real \<Rightarrow> (real \<Rightarrow> real) \<Rightarrow> bool" where
  "rounds_within u fl \<longleftrightarrow> 0 \<le> u \<and> u < 1 \<and> (\<forall>x. \<bar>fl x - x\<bar> \<le> u * \<bar>x\<bar>)"

text \<open>
  \<open>round_to_nearest p\<close> rounds to the nearest number with \<open>p + 1\<close>
  significant bits, a tie upward and the exponent unbounded; with \<open>p = 52\<close>
  these are the 53 significant bits of a double. \<open>rounding_arith\<close> rounds
  every operation, and the exact logarithm, in this way.
\<close>

definition round_to_nearest :: "nat \<Rightarrow> real \<Rightarrow> real" where
  "round_to_nearest p x =
     (if x = 0 then 0
      else let g = 2 powr real_of_int (\<lfloor>log 2 \<bar>x\<bar>\<rfloor> - int p)
           in real_of_int (round (x / g)) * g)"

definition rounding_arith :: float_model where
  "rounding_arith = \<lparr>fl_round = round_to_nearest 52,
                     fl_log10 = (\<lambda>x. round_to_nearest 52 (log 10 x))\<rparr>"

text \<open>\<open>math.log10\<close> raises \<open>ValueError\<close> outside the positive reals.\<close>

definition py_log10 :: "real \<Rightarrow> error + real" where
  "py_log10 x = (if 0 < x then Inr (log 10 x) else Inl ValueError)"

text \<open>
  \<open>sorted(items, key=lambda x: x[1], reverse=True)\<close> and
  \<open>scores.sort(key=..., reverse=True)\<close>: Python's sort is stable, also with
  \<open>reverse=True\<close>, so pairs with equal scores keep their original relative
  order. \<open>sort_key\<close> is a stable insertion sort; sorting by the negated
  score gives the descending order.
\<close>

definition sorted_by_score_desc :: "(int \<times> real) list \<Rightarrow> (int \<times> real) list" where
  "sorted_by_score_desc scores = sort_key (\<lambda>x. - snd x) scores"

text \<open>The slice \<open>xs[:k]\<close>; a negative \<open>k\<close> drops the last \<open>-k\<close> elements.\<close>

definition slice_to :: "'a list \<Rightarrow> int \<Rightarrow> 'a list" where
  "slice_to xs k = (if 0 \<le> k then take (nat k) xs else take (length xs - nat (- k)) xs)"

section \<open>Language model (class \<open>ModeleLangue\<close>)\<close>

record modele_langue =
  lm_index :: "(string \<times> int fset) list"
  lm_documents :: "document list"
  lm_num_docs :: int
  lm_lambda_param :: real
  lm_tf :: "(int \<times> (string \<times> int) list) list"
  lm_doc_lengths :: "(int \<times> int) list"
  lm_collection_tf :: "(string \<times> int) list"
  lm_collection_length :: int
  lm_collection_prob :: "(string \<times> real) list"

text \<open>The counting loops of the constructor, innermost first.\<close>

fun lm_count_tokens :: "int \<Rightarrow> string list \<Rightarrow> modele_langue \<Rightarrow> modele_langue" where
  "lm_count_tokens d [] m = m"
| "lm_count_tokens d (token # rest) m =
     lm_count_tokens d rest
       (m\<lparr>lm_tf := nested_incr (lm_tf m) d token,
          lm_collection_tf :=
            AList.update token (dict_get (lm_collection_tf m) token 0 + 1) (lm_collection_tf m),
          lm_collection_length := lm_collection_length m + 1\<rparr>)"

fun lm_count_documents :: "document list \<Rightarrow> modele_langue \<Rightarrow> modele_langue" where
  "lm_count_documents [] m = m"
| "lm_count_documents (doc # docs) m =
     lm_count_documents docs
       (lm_count_tokens (doc_id doc) (tokens doc)
          (m\<lparr>lm_doc_lengths :=
               AList.update (doc_id doc) (int (length (tokens doc))) (lm_doc_lengths m)\<rparr>))"

text \<open>
  \<open>for term, count in self.collection_tf.items():
  self.collection_prob[term] = count / max(self.collection_length, 1)\<close>.
\<close>

fun lm_collection_probs ::
  "(string \<times> int) list \<Rightarrow> int \<Rightarrow> (string \<times> real) list \<Rightarrow> (string \<times> real) list" where
  "lm_collection_probs [] collection_length collection_prob = collection_prob"
| "lm_collection_probs ((term, count) # items) collection_length collection_prob =
     lm_collection_probs items collection_length
       (AList.update term (real_of_int count / real_of_int (max collection_length 1))
          collection_prob)"

definition modele_langue_init ::
  "(string \<times> int fset) list \<Rightarrow> document list \<Rightarrow> real \<Rightarrow> modele_langue" where
  "modele_langue_init index_inverse documents lambda_param =
     (let m0 = \<lparr>lm_index = index_inverse, lm_documents = documents,
                lm_num_docs = int (length documents), lm_lambda_param = lambda_param,
                lm_tf = [], lm_doc_lengths = [], lm_collection_tf = [],
                lm_collection_length = 0, lm_collection_prob = []\<rparr>;
          m1 = lm_count_documents documents m0
      in m1\<lparr>lm_collection_prob :=
              lm_collection_probs (lm_collection_tf m1) (lm_collection_length m1) []\<rparr>)"

text \<open>
  \<open>_compute_term_probability\<close>. An unseen term gets the collection
  probability \<open>1 / max(collection_length, 1)\<close>, the default of
  \<open>collection_prob.get\<close>.
\<close>

definition lm_compute_term_probability :: "modele_langue \<Rightarrow> int \<Rightarrow> string \<Rightarrow> error + real" where
  "lm_compute_term_probability m d term =
     (case map_of (lm_doc_lengths m) d of
        None \<Rightarrow> Inl KeyError
      | Some doc_length \<Rightarrow>
          let doc_prob = (if doc_length = 0 then 0
                          else real_of_int (nested_get (lm_tf m) d term) / real_of_int doc_length);
              collection_prob = dict_get (lm_collection_prob m) term
                                  (1 / real_of_int (max (lm_collection_length m) 1));
              prob = lm_lambda_param m * doc_prob + (1 - lm_lambda_param m) * collection_prob
          in Inr prob)"

text \<open>
  What one query term adds to the score of one document in \<open>search\<close>:
  \<open>log10(prob)\<close> for a positive probability, \<open>log10(1e-10)\<close> otherwise.
\<close>

definition lm_term_contribution :: "modele_langue \<Rightarrow> int \<Rightarrow> string \<Rightarrow> error + real" where
  "lm_term_contribution m d term =
     (case lm_compute_term_probability m d term of
        Inl e \<Rightarrow> Inl e
      | Inr prob \<Rightarrow> if prob > 0 then Inr (log 10 prob) else Inr (log 10 (1 / 10 ^ 10)))"

text \<open>
  The two loops of \<open>search\<close>; \<open>doc_scores\<close> is a dictionary, so a repeated
  identifier overwrites its score and keeps its position.
\<close>

fun lm_score_terms :: "modele_langue \<Rightarrow> int \<Rightarrow> string list \<Rightarrow> real \<Rightarrow> error + real" where
  "lm_score_terms m d [] score = Inr score"
| "lm_score_terms m d (term # rest) score =
     (case lm_term_contribution m d term of
        Inl e \<Rightarrow> Inl e
      | Inr c \<Rightarrow> lm_score_terms m d rest (score + c))"

fun lm_score_documents ::
  "modele_langue \<Rightarrow> string list \<Rightarrow> document list \<Rightarrow> (int \<times> real) list
     \<Rightarrow> error + (int \<times> real) list" where
  "lm_score_documents m query_terms [] doc_scores = Inr doc_scores"
| "lm_score_documents m query_terms (doc # docs) doc_scores =
     (case lm_score_terms m (doc_id doc) query_terms 0 of
        Inl e \<Rightarrow> Inl e
      | Inr score \<Rightarrow>
          lm_score_documents m query_terms docs (AList.update (doc_id doc) score doc_scores))"

definition lm_search ::
  "modele_langue \<Rightarrow> (string \<Rightarrow> string list) \<Rightarrow> string \<Rightarrow> int \<Rightarrow> error + (int \<times> real) list" where
  "lm_search m preprocess_text query top_k =
     (let query_terms = preprocess_text query
      in if query_terms = [] then Inr []
         else case lm_score_documents m query_terms (lm_documents m) [] of
                Inl e \<Rightarrow> Inl e
              | Inr doc_scores \<Rightarrow> Inr (slice_to (sorted_by_score_desc doc_scores) top_k))"

section \<open>Probabilistic model BM25 (class \<open>ModeleProbabiliste\<close>)\<close>

record modele_probabiliste =
  bm_index :: "(string \<times> int fset) list"
  bm_documents :: "document list"
  bm_num_docs :: int
  bm_k1 :: real
  bm_b :: real
  bm_tf :: "(int \<times> (string \<times> int) list) list"
  bm_df :: "(string \<times> int) list"
  bm_doc_lengths :: "(int \<times> int) list"
  bm_avg_doc_length :: real

fun bm_count_tokens :: "int \<Rightarrow> string list \<Rightarrow> modele_probabiliste \<Rightarrow> modele_probabiliste" where
  "bm_count_tokens d [] m = m"
| "bm_count_tokens d (token # rest) m =
     (let m1 = m\<lparr>bm_tf := nested_incr (bm_tf m) d token\<rparr>;
          m2 = (if nested_get (bm_tf m1) d token = 1
                then m1\<lparr>bm_df := AList.update token (dict_get (bm_df m1) token 0 + 1) (bm_df m1)\<rparr>
                else m1)
      in bm_count_tokens d rest m2)"

fun bm_count_documents :: "document list \<Rightarrow> modele_probabiliste \<Rightarrow> modele_probabiliste" where
  "bm_count_documents [] m = m"
| "bm_count_documents (doc # docs) m =
     bm_count_documents docs
       (bm_count_tokens (doc_id doc) (tokens doc)
          (m\<lparr>bm_doc_lengths :=
               AList.update (doc_id doc) (int (length (tokens doc))) (bm_doc_lengths m)\<rparr>))"

text \<open>
  The constructor. \<open>sum(self.doc_lengths.values()) / len(self.doc_lengths)\<close>
  divides two integers: the result is the rounded quotient.
\<close>

definition modele_probabiliste_init ::
  "float_model \<Rightarrow> (string \<times> int fset) list \<Rightarrow> document list \<Rightarrow> real \<Rightarrow> real
     \<Rightarrow> modele_probabiliste" where
  "modele_probabiliste_init fm index_inverse documents k1 b =
     (let m0 = \<lparr>bm_index = index_inverse, bm_documents = documents,
                bm_num_docs = int (length documents), bm_k1 = k1, bm_b = b,
                bm_tf = [], bm_df = [], bm_doc_lengths = [], bm_avg_doc_length = 0\<rparr>;
          m1 = bm_count_documents documents m0
      in m1\<lparr>bm_avg_doc_length :=
              (if bm_doc_lengths m1 \<noteq> []
               then fl_round fm (real_of_int (sum_list (map snd (bm_doc_lengths m1)))
                                   / real_of_int (int (length (bm_doc_lengths m1))))
               else 0)\<rparr>)"

text \<open>
  \<open>_compute_idf\<close>: \<open>0\<close> for a document frequency of 0, otherwise
  \<open>math.log10((self.num_docs - self.df[term] + 0.5) / (self.df[term] + 0.5))\<close>.
  The difference of the two integers is exact; each of the two sums converts
  its integer operand and rounds, and the quotient rounds. A division by 0
  raises \<open>ZeroDivisionError\<close>.
\<close>

definition bm_compute_idf :: "float_model \<Rightarrow> modele_probabiliste \<Rightarrow> string \<Rightarrow> error + real" where
  "bm_compute_idf fm m term =
     (let df = dict_get (bm_df m) term 0
      in if df = 0 then Inr 0
         else let fl = fl_round fm;
                  dividend = fl (fl (real_of_int (bm_num_docs m - df)) + 0.5);
                  divisor = fl (fl (real_of_int df) + 0.5)
              in if divisor = 0 then Inl ZeroDivisionError
                 else let x = fl (dividend / divisor)
                      in if 0 < x then Inr (fl_log10 fm x) else Inl ValueError)"

text \<open>
  \<open>_compute_bm25_score\<close>, operation by operation:
  \<open>numerator = tf * (self.k1 + 1)\<close>,
  \<open>denominator = tf + self.k1 * (1 - self.b + self.b * (doc_length / max(self.avg_doc_length, 1)))\<close>,
  \<open>score = idf * (numerator / denominator)\<close>. \<open>max(avg_doc_length, 1)\<close> is
  at least 1; the last division raises when the denominator is 0.
\<close>

definition bm_compute_bm25_score ::
  "float_model \<Rightarrow> modele_probabiliste \<Rightarrow> int \<Rightarrow> string \<Rightarrow> error + real" where
  "bm_compute_bm25_score fm m d term =
     (case map_of (dict_get (bm_tf m) d []) term of
        None \<Rightarrow> Inr 0
      | Some tf \<Rightarrow>
          (case map_of (bm_doc_lengths m) d of
             None \<Rightarrow> Inl KeyError
           | Some doc_length \<Rightarrow>
               (case bm_compute_idf fm m term of
                  Inl e \<Rightarrow> Inl e
                | Inr idf \<Rightarrow>
                    let fl = fl_round fm;
                        numerator = fl (fl (real_of_int tf) * fl (bm_k1 m + 1));
                        denominator = fl (fl (real_of_int tf)
                          + fl (bm_k1 m * fl (fl (1 - bm_b m)
                              + fl (bm_b m * fl (fl (real_of_int doc_length)
                                                   / max (bm_avg_doc_length m) 1)))))
                    in if denominator = 0 then Inl ZeroDivisionError
                       else Inr (fl (idf * fl (numerator / denominator))))))"

text \<open>
  \<open>search\<close>: for every query term that is a key of the index, every
  document of its posting set adds its score to \<open>doc_scores[doc_id]\<close>
  (a \<open>defaultdict(float)\<close>; the sum rounds). The loop \<open>for doc_id in self.index[term]\<close>
  iterates a set, in an order Python does not specify: the order is the
  parameter \<open>set_order\<close>.
\<close>

fun bm_score_postings ::
  "float_model \<Rightarrow> modele_probabiliste \<Rightarrow> string \<Rightarrow> int list \<Rightarrow> (int \<times> real) list
     \<Rightarrow> error + (int \<times> real) list" where
  "bm_score_postings fm m term [] doc_scores = Inr doc_scores"
| "bm_score_postings fm m term (d # rest) doc_scores =
     (case bm_compute_bm25_score fm m d term of
        Inl e \<Rightarrow> Inl e
      | Inr score \<Rightarrow>
          bm_score_postings fm m term rest
            (AList.update d (fl_round fm (dict_get doc_scores d 0 + score)) doc_scores))"

fun bm_score_terms ::
  "float_model \<Rightarrow> modele_probabiliste \<Rightarrow> (int fset \<Rightarrow> int list) \<Rightarrow> string list
     \<Rightarrow> (int \<times> real) list \<Rightarrow> error + (int \<times> real) list" where
  "bm_score_terms fm m set_order [] doc_scores = Inr doc_scores"
| "bm_score_terms fm m set_order (term # rest) doc_scores =
     (case map_of (bm_index m) term of
        None \<Rightarrow> bm_score_terms fm m set_order rest doc_scores
      | Some doc_ids \<Rightarrow>
          (case bm_score_postings fm m term (set_order doc_ids) doc_scores of
             Inl e \<Rightarrow> Inl e
           | Inr doc_scores' \<Rightarrow> bm_score_terms fm m set_order rest doc_scores'))"

definition bm_search ::
  "float_model \<Rightarrow> modele_probabiliste \<Rightarrow> (int fset \<Rightarrow> int list) \<Rightarrow> (string \<Rightarrow> string list)
     \<Rightarrow> string \<Rightarrow> int \<Rightarrow> error + (int \<times> real) list" where
  "bm_search fm m set_order preprocess_text query top_k =
     (let query_terms = preprocess_text query
      in if query_terms = [] then Inr []
         else case bm_score_terms fm m set_order query_terms [] of
                Inl e \<Rightarrow> Inl e
              | Inr doc_scores \<Rightarrow> Inr (slice_to (sorted_by_score_desc doc_scores) top_k))"

text \<open>
  A stored count is positive: the constructor only stores counts it has
  incremented from 0.
\<close>

definition tf_entry_positive :: "(int \<times> (string \<times> int) list) list \<Rightarrow> int \<Rightarrow> string \<Rightarrow> bool" where
  "tf_entry_positive tf d term =
     (case map_of (dict_get tf d []) term of None \<Rightarrow> True | Some c \<Rightarrow> 0 < c)"

section \<open>Vector-space model (class \<open>ModeleVectoriel\<close>)\<close>

record modele_vectoriel =
  vs_index :: "(string \<times> int fset) list"
  vs_documents :: "document list"
  vs_num_docs :: int
  vs_vocabulary :: "string list"
  vs_term_to_idx :: "(string \<times> nat) list"
  vs_tf :: "(int \<times> (string \<times> int) list) list"
  vs_df :: "(string \<times> int) list"
  vs_doc_vectors :: "(int \<times> real list) list"

text \<open>
  The numpy operations in use: \<open>np.zeros\<close>, \<open>np.linalg.norm\<close>, \<open>np.dot\<close>
  on one-dimensional arrays (a \<open>ValueError\<close> when the lengths differ),
  division of a vector by its norm when the norm is positive, and the
  assignment \<open>vector[self.term_to_idx[term]] = x\<close>.
\<close>

definition np_zeros :: "nat \<Rightarrow> real list" where
  "np_zeros n = replicate n 0"

definition np_norm :: "real list \<Rightarrow> real" where
  "np_norm v = sqrt (sum_list (map (\<lambda>x. x * x) v))"

definition np_dot :: "real list \<Rightarrow> real list \<Rightarrow> error + real" where
  "np_dot u v =
     (if length u = length v then Inr (sum_list (map (\<lambda>(x, y). x * y) (zip u v)))
      else Inl ValueError)"

definition normalise :: "real list \<Rightarrow> real list" where
  "normalise v = (let norm = np_norm v in if norm > 0 then map (\<lambda>x. x / norm) v else v)"

definition vector_set ::
  "modele_vectoriel \<Rightarrow> real list \<Rightarrow> string \<Rightarrow> real \<Rightarrow> error + real list" where
  "vector_set m v term x =
     (case map_of (vs_term_to_idx m) term of
        None \<Rightarrow> Inl KeyError
      | Some i \<Rightarrow> if i < length v then Inr (v[i := x]) else Inl IndexError)"

definition vs_idf :: "modele_vectoriel \<Rightarrow> string \<Rightarrow> error + real" where
  "vs_idf m term =
     py_log10 (real_of_int (vs_num_docs m) / real_of_int (max (dict_get (vs_df m) term 0) 1))"

text \<open>The constructor: counting, then one TF-IDF vector per document.\<close>

fun vs_count_tokens :: "int \<Rightarrow> string list \<Rightarrow> modele_vectoriel \<Rightarrow> modele_vectoriel" where
  "vs_count_tokens d [] m = m"
| "vs_count_tokens d (token # rest) m =
     (if token \<in> set (vs_vocabulary m) then
        (let m1 = m\<lparr>vs_tf := nested_incr (vs_tf m) d token\<rparr>;
             m2 = (if nested_get (vs_tf m1) d token = 1
                   then m1\<lparr>vs_df := AList.update token (dict_get (vs_df m1) token 0 + 1) (vs_df m1)\<rparr>
                   else m1)
         in vs_count_tokens d rest m2)
      else vs_count_tokens d rest m)"

fun vs_count_documents :: "document list \<Rightarrow> modele_vectoriel \<Rightarrow> modele_vectoriel" where
  "vs_count_documents [] m = m"
| "vs_count_documents (doc # docs) m =
     vs_count_documents docs (vs_count_tokens (doc_id doc) (tokens doc) m)"

fun vs_fill_doc_vector ::
  "modele_vectoriel \<Rightarrow> int \<Rightarrow> string list \<Rightarrow> real list \<Rightarrow> error + real list" where
  "vs_fill_doc_vector m d [] v = Inr v"
| "vs_fill_doc_vector m d (term # rest) v =
     (case map_of (dict_get (vs_tf m) d []) term of
        None \<Rightarrow> vs_fill_doc_vector m d rest v
      | Some c \<Rightarrow>
          (case py_log10 (real_of_int c) of
             Inl e \<Rightarrow> Inl e
           | Inr l \<Rightarrow>
               (case vs_idf m term of
                  Inl e \<Rightarrow> Inl e
                | Inr idf_value \<Rightarrow>
                    (case vector_set m v term ((1 + l) * idf_value) of
                       Inl e \<Rightarrow> Inl e
                     | Inr v' \<Rightarrow> vs_fill_doc_vector m d rest v'))))"

fun vs_compute_tfidf_vectors ::
  "document list \<Rightarrow> modele_vectoriel \<Rightarrow> error + modele_vectoriel" where
  "vs_compute_tfidf_vectors [] m = Inr m"
| "vs_compute_tfidf_vectors (doc # docs) m =
     (case vs_fill_doc_vector m (doc_id doc) (vs_vocabulary m)
             (np_zeros (length (vs_vocabulary m))) of
        Inl e \<Rightarrow> Inl e
      | Inr v \<Rightarrow>
          vs_compute_tfidf_vectors docs
            (m\<lparr>vs_doc_vectors := AList.update (doc_id doc) (normalise v) (vs_doc_vectors m)\<rparr>))"

definition modele_vectoriel_init ::
  "(string \<times> int fset) list \<Rightarrow> document list \<Rightarrow> error + modele_vectoriel" where
  "modele_vectoriel_init index_inverse documents =
     (let vocabulary = sort (map fst index_inverse);
          m0 = \<lparr>vs_index = index_inverse, vs_documents = documents,
                vs_num_docs = int (length documents), vs_vocabulary = vocabulary,
                vs_term_to_idx =
                  fold (\<lambda>(idx, term) d. AList.update term idx d)
                    (zip [0..<length vocabulary] vocabulary) [],
                vs_tf = [], vs_df = [], vs_doc_vectors = []\<rparr>;
          m1 = vs_count_documents documents m0
      in vs_compute_tfidf_vectors documents m1)"

text \<open>\<open>_compute_query_vector\<close> and \<open>search\<close>.\<close>

fun vs_count_query :: "modele_vectoriel \<Rightarrow> string list \<Rightarrow> (string \<times> int) list \<Rightarrow> (string \<times> int) list" where
  "vs_count_query m [] query_tf = query_tf"
| "vs_count_query m (term # rest) query_tf =
     (if term \<in> set (vs_vocabulary m)
      then vs_count_query m rest (AList.update term (dict_get query_tf term 0 + 1) query_tf)
      else vs_count_query m rest query_tf)"

fun vs_fill_query_vector ::
  "modele_vectoriel \<Rightarrow> (string \<times> int) list \<Rightarrow> real list \<Rightarrow> error + real list" where
  "vs_fill_query_vector m [] v = Inr v"
| "vs_fill_query_vector m ((term, count) # items) v =
     (case py_log10 (real_of_int count) of
        Inl e \<Rightarrow> Inl e
      | Inr l \<Rightarrow>
          (case vs_idf m term of
             Inl e \<Rightarrow> Inl e
           | Inr idf_value \<Rightarrow>
               (case vector_set m v term ((1 + l) * idf_value) of
                  Inl e \<Rightarrow> Inl e
                | Inr v' \<Rightarrow> vs_fill_query_vector m items v')))"

definition vs_compute_query_vector :: "modele_vectoriel \<Rightarrow> string list \<Rightarrow> error + real list" where
  "vs_compute_query_vector m query_terms =
     (case vs_fill_query_vector m (vs_count_query m query_terms [])
             (np_zeros (length (vs_vocabulary m))) of
        Inl e \<Rightarrow> Inl e
      | Inr v \<Rightarrow> Inr (normalise v))"

fun vs_similarities ::
  "real list \<Rightarrow> (int \<times> real list) list \<Rightarrow> (int \<times> real) list \<Rightarrow> error + (int \<times> real) list" where
  "vs_similarities query_vector [] scores = Inr scores"
| "vs_similarities query_vector ((d, doc_vector) # items) scores =
     (case np_dot query_vector doc_vector of
        Inl e \<Rightarrow> Inl e
      | Inr similarity \<Rightarrow> vs_similarities query_vector items (scores @ [(d, similarity)]))"

definition vs_candidates :: "modele_vectoriel \<Rightarrow> string list \<Rightarrow> error + (int \<times> real) list" where
  "vs_candidates m query_terms =
     (case vs_compute_query_vector m query_terms of
        Inl e \<Rightarrow> Inl e
      | Inr query_vector \<Rightarrow> vs_similarities query_vector (vs_doc_vectors m) [])"

definition vs_search ::
  "modele_vectoriel \<Rightarrow> (string \<Rightarrow> string list) \<Rightarrow> string \<Rightarrow> int \<Rightarrow> error + (int \<times> real) list" where
  "vs_search m preprocess_text query top_k =
     (let query_terms = preprocess_text query
      in if query_terms = [] then Inr []
         else case vs_candidates m query_terms of
                Inl e \<Rightarrow> Inl e
              | Inr scores \<Rightarrow> Inr (slice_to (sorted_by_score_desc scores) top_k))"

section \<open>Properties of ranked results\<close>

text \<open>
  \<open>ranked_stably candidates results\<close>: the results are in descending order
  of score, and the results that share a score are an initial part of the
  candidates with that score, in the candidates' order.
  \<open>sorted_desc_ties_by_doc_id\<close> states the order that breaks ties by
  ascending document identifier.

  The candidates of a search are the items of a dictionary (or, in the
  vector-space model, of a list filled from one): a key stands where it was
  first inserted. \<open>first_occurrences xs\<close> is \<open>xs\<close> without the repetitions
  of an element that has occurred before (\<open>remdups\<close> keeps the last
  occurrence of an element, so the list is reversed before and after).
  \<open>bm_visit_order\<close> lists the
  document identifiers in the order in which the two loops of the BM25
  \<open>search\<close> visit them: the query terms in their order, and for each
  term that is a key of the index its posting set in iteration order.
\<close>

definition first_occurrences :: "'a list \<Rightarrow> 'a list" where
  "first_occurrences xs = rev (remdups (rev xs))"

definition bm_visit_order ::
  "modele_probabiliste \<Rightarrow> (int fset \<Rightarrow> int list) \<Rightarrow> string list \<Rightarrow> int list" where
  "bm_visit_order m set_order query_terms =
     concat (map (\<lambda>term. case map_of (bm_index m) term of
                             None \<Rightarrow> []
                           | Some doc_ids \<Rightarrow> set_order doc_ids) query_terms)"

definition ranked_stably :: "(int \<times> real) list \<Rightarrow> (int \<times> real) list \<Rightarrow> bool" where
  "ranked_stably candidates results \<longleftrightarrow>
     sorted_wrt (\<lambda>p q. snd q \<le> snd p) results \<and>
     list_all (\<lambda>r. prefix (filter (\<lambda>p. snd p = snd r) results)
                           (filter (\<lambda>p. snd p = snd r) candidates)) results"

definition sorted_desc_ties_by_doc_id :: "(int \<times> real) list \<Rightarrow> bool" where
  "sorted_desc_ties_by_doc_id results \<longleftrightarrow>
     sorted_wrt (\<lambda>p q. snd q < snd p \<or> (snd q = snd p \<and> fst p < fst q)) results"

section \<open>Verification\<close>

subsection \<open>Gap encoding\<close>

lemma gaps_fold:
  "1 \<le> n \<Longrightarrow> fold (\<lambda>i gaps. gaps @ [(s::int list) ! i - s ! (i - 1)]) [1..<n] [s ! 0]
     = map (\<lambda>i. if i = 0 then s ! 0 else s ! i - s ! (i - 1)) [0..<n]"
proof (induction n)
  case 0 then show ?case by simp
next
  case (Suc n)
  show ?case
  proof (cases "n = 0")
    case True then show ?thesis by simp
  next
    case False
    with Suc show ?thesis by simp
  qed
qed

lemma ungaps_fold:
  assumes "1 \<le> k" "k \<le> length s"
     and g: "\<And>i. i < length s \<Longrightarrow> g ! i = (if i = 0 then s ! 0 else s ! i - s ! (i - 1))"
  shows "fold (\<lambda>i doc_ids. doc_ids @ [doc_ids ! (i - 1) + (g::int list) ! i]) [1..<k] [g ! 0] = take k s"
  using assms(1,2)
proof (induction k)
  case 0 then show ?case by simp
next
  case (Suc k)
  show ?case
  proof (cases "k = 0")
    case True
    with Suc.prems g[of 0] show ?thesis by (cases s) auto
  next
    case False
    with Suc have IH: "fold (\<lambda>i doc_ids. doc_ids @ [doc_ids ! (i - 1) + g ! i]) [1..<k] [g ! 0] = take k s" by simp
    from False Suc.prems have "k < length s" "0 < k" by auto
    then show ?thesis using IH g[of k] False
      by (simp add: take_Suc_conv_app_nth nth_append)
  qed
qed

lemma compress_gap_encoding_nth:
  assumes "xs \<noteq> []"
  shows "compress_gap_encoding xs =
     map (\<lambda>i. if i = 0 then sort xs ! 0 else sort xs ! i - sort xs ! (i - 1)) [0..<length xs]"
proof -
  have len: "1 \<le> length (sort xs)" using assms by (cases xs) auto
  show ?thesis
    using assms gaps_fold[OF len, of "sort xs"] by (simp add: compress_gap_encoding_def Let_def)
qed

lemma decompress_compress_sort: "decompress_gap_encoding (compress_gap_encoding xs) = sort xs"
proof (cases "xs = []")
  case True then show ?thesis by (simp add: compress_gap_encoding_def decompress_gap_encoding_def)
next
  case False
  let ?s = "sort xs" and ?g = "compress_gap_encoding xs"
  have len: "1 \<le> length ?s" using False by (cases xs) auto
  have c: "?g = map (\<lambda>i. if i = 0 then ?s ! 0 else ?s ! i - ?s ! (i - 1)) [0..<length ?s]"
    using compress_gap_encoding_nth[OF False] by simp
  have ne: "?g \<noteq> []" and l: "length ?g = length ?s" using c len False by auto
  have "fold (\<lambda>i doc_ids. doc_ids @ [doc_ids ! (i - 1) + ?g ! i]) [1..<length ?s] [?g ! 0]
          = take (length ?s) ?s"
    by (rule ungaps_fold[OF len]) (simp_all add: c del: length_sort)
  then show ?thesis using ne l by (simp add: decompress_gap_encoding_def del: length_sort)
qed

lemma sort_hd_Min:
  assumes "xs \<noteq> []" shows "sort xs ! 0 = Min (set (xs::int list))"
proof -
  have ne: "sort xs \<noteq> []" using assms by (cases xs) auto
  then obtain y ys where s: "sort xs = y # ys" by (cases "sort xs") auto
  have "sorted (y # ys)" using sorted_sort[of xs] s by simp
  then have "\<forall>z\<in>set (y # ys). y \<le> z" by auto
  moreover have "set (y # ys) = set xs" unfolding s[symmetric] by simp
  ultimately have "Min (set xs) = y" by (intro Min_eqI) auto
  then show ?thesis using s by simp
qed

text \<open>
  Claim C5. Let \<open>xs\<close> enumerate a non-empty finite set \<open>S\<close> of integers
  (each element once). Decoding the gap encoding of \<open>xs\<close> gives the sorted
  list of \<open>S\<close>; the encoding has one entry per element, its first entry is
  the smallest identifier itself and every later entry is the difference
  between consecutive sorted identifiers; the empty list encodes and decodes
  to the empty list. Positivity of the identifiers is not needed.
\<close>

theorem gap_encoding_roundtrip:
  assumes "set xs = S" and "distinct xs" and "S \<noteq> {}"
  shows "decompress_gap_encoding (compress_gap_encoding xs) = sorted_list_of_set S
       \<and> length (compress_gap_encoding xs) = card S
       \<and> compress_gap_encoding xs ! 0 = Min S
       \<and> (\<forall>i. 0 < i \<and> i < card S \<longrightarrow>
             compress_gap_encoding xs ! i
               = sorted_list_of_set S ! i - sorted_list_of_set S ! (i - 1))
       \<and> compress_gap_encoding [] = [] \<and> decompress_gap_encoding [] = []"
proof -
  have ne: "xs \<noteq> []" using assms by auto
  have srt: "sorted_list_of_set S = sort xs"
    using assms(2) unfolding assms(1)[symmetric]
    by (simp add: sorted_list_of_set_sort_remdups distinct_remdups_id)
  have card: "card S = length xs" using assms(1,2) distinct_card by fastforce
  have nth: "\<And>i. i < length xs \<Longrightarrow> compress_gap_encoding xs ! i
       = (if i = 0 then sort xs ! 0 else sort xs ! i - sort xs ! (i - 1))"
    by (simp add: compress_gap_encoding_nth[OF ne])
  have "compress_gap_encoding xs ! 0 = Min S"
    using nth[of 0] ne sort_hd_Min[OF ne] assms(1) by simp
  moreover have "length (compress_gap_encoding xs) = card S"
    by (simp add: compress_gap_encoding_nth[OF ne] card)
  moreover have "compress_gap_encoding [] = []" "decompress_gap_encoding [] = []"
    by (simp_all add: compress_gap_encoding_def decompress_gap_encoding_def)
  ultimately show ?thesis
    using decompress_compress_sort[of xs] nth by (simp add: srt card)
qed

theorem gap_encoding_roundtrip_witness:
  "set [7, 1, 10, 3, 5::int] = {1, 3, 5, 7, 10} \<and> distinct [7, 1, 10, 3, 5::int]
     \<and> {1, 3, 5, 7, 10::int} \<noteq> {}
     \<and> compress_gap_encoding [7, 1, 10, 3, 5] = [1, 2, 2, 2, 3]
     \<and> decompress_gap_encoding (compress_gap_encoding [7, 1, 10, 3, 5]) = sorted_list_of_set {1, 3, 5, 7, 10}"
proof -
  have h: "set [7, 1, 10, 3, 5::int] = {1, 3, 5, 7, 10}" "distinct [7, 1, 10, 3, 5::int]"
          "{1, 3, 5, 7, 10::int} \<noteq> {}" by auto
  have c: "compress_gap_encoding [7, 1, 10, 3, 5] = [1, 2, 2, 2, 3]"
    by code_simp
  from gap_encoding_roundtrip[OF h] h c show ?thesis by simp
qed

subsection \<open>Variable-byte encoding\<close>

lemma and_127_eq_mod: "(x::int) AND 127 = x mod 128"
proof -
  have "x AND 127 = x AND mask 7" by (simp add: mask_eq_exp_minus_1)
  also have "\<dots> = take_bit 7 x" by (simp add: take_bit_eq_mask)
  also have "\<dots> = x mod 128" by (simp add: take_bit_eq_mod)
  finally show ?thesis .
qed

lemma or_128_eq_add:
  assumes "0 \<le> (r::int)" "r < 128"
  shows "r OR 128 = r + 128"
proof -
  have "r div 2 ^ 7 = 0" using assms by simp
  then have "\<not> bit r 7" by (simp add: bit_iff_odd)
  then have "r AND 2 ^ 7 = 0" by (rule iffD2[OF and_exp_eq_0_iff_not_bit])
  then have "r AND 128 = 0" by simp
  then show ?thesis by (simp add: disjunctive_add_eq_or)
qed

lemma push_bit_split7:
  "push_bit s (n mod 128) + push_bit (s + 7) (n div 128) = push_bit s (n::int)"
proof -
  have "push_bit s n = (n mod 128 + n div 128 * 128) * 2 ^ s"
    by (simp add: push_bit_eq_mult)
  also have "\<dots> = n mod 128 * 2 ^ s + n div 128 * 128 * 2 ^ s"
    by (rule distrib_right)
  also have "\<dots> = push_bit s (n mod 128) + push_bit (s + 7) (n div 128)"
    by (simp add: push_bit_eq_mult power_add)
  finally show ?thesis by simp
qed

text \<open>
  Loop invariant of the encoder, phrased against the decoder: whatever the
  encoder appends to its accumulator, followed by the final byte, is decoded
  from any running value \<open>a\<close> and shift \<open>s\<close> to \<open>a + number * 2 ^ s\<close>.
\<close>

lemma vb_encode_loop_decode:
  "0 \<le> number \<Longrightarrow> vb_encode_loop number result = (res, m) \<Longrightarrow>
     \<exists>ds. res = result @ ds \<and> list_all (\<lambda>v. 128 \<le> v \<and> v < 256) ds \<and> 0 \<le> m \<and> m < 128 \<and>
       (\<forall>a s. vb_decode_loop (map word_of_int ds @ [word_of_int (m mod 128)]) a s
                = a + push_bit s number)"
proof (induction number result arbitrary: res m rule: vb_encode_loop.induct)
  case (1 number result)
  show ?case
  proof (cases "number \<ge> 128")
    case False
    with "1.prems" have eq: "res = result" "m = number"
      by (simp_all add: vb_encode_loop.simps[of number result])
    have "uint (word_of_int number :: byte) = number"
      using False "1.prems"(1) by (simp add: uint_word_of_int)
    then show ?thesis using False "1.prems"(1) eq
      by (simp add: and_127_eq_mod)
  next
    case True
    let ?d = "(number mod 128) OR 128"
    have d: "?d = number mod 128 + 128" by (rule or_128_eq_add) simp_all
    have rec: "vb_encode_loop (number div 128) (result @ [?d]) = (res, m)"
      using True "1.prems"(2) by (simp add: vb_encode_loop.simps[of number result])
    have "0 \<le> number div 128" using "1.prems"(1) by simp
    from "1.IH"[OF True this rec] obtain ds where
      ds: "res = (result @ [?d]) @ ds" "list_all (\<lambda>v. 128 \<le> v \<and> v < 256) ds" "0 \<le> m" "m < 128"
        "\<And>a s. vb_decode_loop (map word_of_int ds @ [word_of_int (m mod 128)]) a s
                = a + push_bit s (number div 128)"
      by blast
    have drange: "0 \<le> ?d" "?d < 256" "128 \<le> ?d" unfolding d by simp_all
    have u: "uint (word_of_int ?d :: byte) = ?d"
      using drange by (simp add: uint_word_of_int del: or_nonnegative_int_iff)
    have dand: "?d AND 127 = number mod 128"
      unfolding d by (simp add: and_127_eq_mod)
    have step: "\<And>a s. vb_decode_loop (map word_of_int (?d # ds) @ [word_of_int (m mod 128)]) a s
        = a + push_bit s number"
    proof -
      fix a :: int and s :: nat
      have "vb_decode_loop (map word_of_int (?d # ds) @ [word_of_int (m mod 128)]) a s
         = vb_decode_loop (map word_of_int ds @ [word_of_int (m mod 128)])
              (a + push_bit s (number mod 128)) (s + 7)"
        using drange(3) by (simp add: u dand Let_def del: or_nonnegative_int_iff)
      also have "\<dots> = a + push_bit s (number mod 128) + push_bit (s + 7) (number div 128)"
        by (simp add: ds(5))
      also have "\<dots> = a + push_bit s number"
        using push_bit_split7[of s number] by simp
      finally show "vb_decode_loop (map word_of_int (?d # ds) @ [word_of_int (m mod 128)]) a s
        = a + push_bit s number" .
    qed
    show ?thesis
      apply (rule exI[of _ "?d # ds"])
      using ds(1,2,3,4) drange(2,3) step by simp
  qed
qed

text \<open>
  Claim C6. For every non-negative integer \<open>n\<close>, \<open>compress_variable_byte\<close>
  returns a byte string (the \<open>bytes\<close> constructor does not raise) and
  \<open>decompress_variable_byte\<close> maps that byte string back to \<open>n\<close>. Every
  byte but the last has the continuation bit set (it is at least 128) and
  the last byte has it clear.
\<close>

theorem variable_byte_roundtrip:
  assumes "0 \<le> n"
  shows "\<exists>bs. compress_variable_byte n = Inr bs \<and> decompress_variable_byte bs = n
           \<and> bs \<noteq> [] \<and> list_all (\<lambda>b. 128 \<le> uint b) (butlast bs) \<and> uint (last bs) < 128"
proof -
  obtain res m where rm: "vb_encode_loop n [] = (res, m)" by (cases "vb_encode_loop n []")
  from vb_encode_loop_decode[OF assms rm] obtain ds where
    ds: "res = ds" "list_all (\<lambda>v. 128 \<le> v \<and> v < 256) ds" "0 \<le> m" "m < 128"
        "\<And>a s. vb_decode_loop (map word_of_int ds @ [word_of_int (m mod 128)]) a s
                = a + push_bit s n"
    by auto
  define bs :: "byte list" where "bs = map word_of_int ds @ [word_of_int (m mod 128)]"
  have range: "list_all (\<lambda>v. 0 \<le> v \<and> v < 256) ds"
    using ds(2) by (auto simp: list_all_iff)
  have c: "compress_variable_byte n = Inr bs"
    using ds(1,3,4) range by (simp add: compress_variable_byte_def rm bytes_def bs_def)
  have d: "decompress_variable_byte bs = n"
    using ds(5)[of 0 0] by (simp add: decompress_variable_byte_def bs_def)
  have u: "uint (word_of_int v :: byte) = v" if "0 \<le> v" "v < 256" for v
    using that by (simp add: uint_word_of_int)
  have cont: "list_all (\<lambda>b. 128 \<le> uint b) (butlast bs)"
    using ds(2) u by (auto simp: bs_def list_all_iff)
  have "uint (last bs) = m" using ds(3,4) u[of m] by (simp add: bs_def)
  then have fin: "uint (last bs) < 128" using ds(4) by simp
  have "bs \<noteq> []" by (simp add: bs_def)
  with c d cont fin show ?thesis by blast
qed

theorem variable_byte_roundtrip_witness:
  "0 \<le> (300::int) \<and>
   (\<exists>bs. compress_variable_byte 300 = Inr bs \<and> decompress_variable_byte bs = 300
      \<and> bs \<noteq> [] \<and> list_all (\<lambda>b. 128 \<le> uint b) (butlast bs) \<and> uint (last bs) < 128)"
  using variable_byte_roundtrip[of 300] by simp

subsection \<open>Index construction and maintenance\<close>

lemma map_of_Some_key: "map_of xs k = Some v \<Longrightarrow> k \<in> fst ` set xs"
  by (metis map_of_eq_None_iff option.distinct(1))

lemma map_of_None_key: "map_of xs k = None \<longleftrightarrow> k \<notin> fst ` set xs"
  by (rule map_of_eq_None_iff)

lemma index_getitem_Inr:
  assumes "index_getitem idx term = Inr (s, idx1)"
  shows "s = get_posting_list idx term"
    and "map_of (index idx1) = (map_of (index idx))(term \<mapsto> s)"
    and "doc_freq idx1 = doc_freq idx"
    and "index_is_defaultdict idx1 = index_is_defaultdict idx"
    and "fst ` set (index idx1) = insert term (fst ` set (index idx))"
    and "distinct (map fst (index idx)) \<Longrightarrow> distinct (map fst (index idx1))"
proof -
  show "s = get_posting_list idx term"
    using assms by (auto simp: index_getitem_def get_posting_list_def dict_get_def
        split: option.splits if_splits)
  show "doc_freq idx1 = doc_freq idx" "index_is_defaultdict idx1 = index_is_defaultdict idx"
    using assms by (auto simp: index_getitem_def split: option.splits if_splits)
  show "map_of (index idx1) = (map_of (index idx))(term \<mapsto> s)"
    using assms by (auto simp: index_getitem_def update_conv' split: option.splits if_splits)
  then show "fst ` set (index idx1) = insert term (fst ` set (index idx))"
    unfolding dom_map_of_conv_image_fst[symmetric] by simp
  show "distinct (map fst (index idx1))" if "distinct (map fst (index idx))"
    using assms that
    by (auto simp: index_getitem_def distinct_update split: option.splits if_splits)
qed

lemma index_getitem_Inl:
  "index_getitem idx term = Inl e \<longleftrightarrow>
     e = KeyError \<and> \<not> index_is_defaultdict idx \<and> term \<notin> fst ` set (index idx)"
proof (cases "map_of (index idx) term")
  case None
  then have "term \<notin> fst ` set (index idx)" by (simp add: map_of_None_key)
  with None show ?thesis by (auto simp: index_getitem_def)
next
  case (Some a)
  with map_of_Some_key[OF Some] show ?thesis by (auto simp: index_getitem_def)
qed

lemma get_posting_list_cong:
  assumes "map_of (index idx1) t = map_of (index idx2) t"
  shows "get_posting_list idx1 t = get_posting_list idx2 t"
  unfolding get_posting_list_def dict_get_def assms ..

lemma dict_get_cong:
  assumes "map_of xs k = map_of ys k"
  shows "dict_get xs k x = dict_get ys k x"
  unfolding dict_get_def assms ..

text \<open>What the inner \<open>for token in unique_tokens\<close> loop does when it completes.\<close>

lemma index_tokens_Inr_aux:
  "index_tokens d ts idx = Inr idx' \<Longrightarrow> distinct ts \<Longrightarrow>
     (\<forall>t. map_of (index idx') t =
           (if t \<in> set ts then Some (finsert d (get_posting_list idx t)) else map_of (index idx) t))
   \<and> (\<forall>t. map_of (doc_freq idx') t =
           (if t \<in> set ts then Some (dict_get (doc_freq idx) t 0 + 1) else map_of (doc_freq idx) t))
   \<and> index_is_defaultdict idx' = index_is_defaultdict idx
   \<and> (distinct (map fst (index idx)) \<longrightarrow> distinct (map fst (index idx')))
   \<and> (distinct (map fst (doc_freq idx)) \<longrightarrow> distinct (map fst (doc_freq idx')))"
proof (induction ts arbitrary: idx)
  case Nil
  then show ?case by simp
next
  case (Cons token rest)
  from Cons.prems(1) obtain s idx1 where g: "index_getitem idx token = Inr (s, idx1)"
    by (cases "index_getitem idx token") auto
  define idx2 where "idx2 = idx1\<lparr>index := AList.update token (finsert d s) (index idx1)\<rparr>"
  define idx3 where "idx3 = idx2\<lparr>doc_freq :=
      AList.update token (dict_get (doc_freq idx2) token 0 + 1) (doc_freq idx2)\<rparr>"
  have rec: "index_tokens d rest idx3 = Inr idx'"
    using Cons.prems(1) g by (simp add: idx3_def idx2_def Let_def)
  note G = index_getitem_Inr[OF g]
  have ix3: "map_of (index idx3) = (map_of (index idx))(token \<mapsto> finsert d (get_posting_list idx token))"
    by (simp add: idx3_def idx2_def update_conv' G(1,2))
  have df3: "map_of (doc_freq idx3) = (map_of (doc_freq idx))(token \<mapsto> dict_get (doc_freq idx) token 0 + 1)"
    by (simp add: idx3_def idx2_def update_conv' G(3))
  have dd3: "index_is_defaultdict idx3 = index_is_defaultdict idx"
    by (simp add: idx3_def idx2_def G(4))
  have di3: "distinct (map fst (index idx)) \<Longrightarrow> distinct (map fst (index idx3))"
    using G(6) by (simp add: idx3_def idx2_def distinct_update)
  have dq3: "distinct (map fst (doc_freq idx)) \<Longrightarrow> distinct (map fst (doc_freq idx3))"
    by (simp add: idx3_def idx2_def distinct_update G(3))
  from Cons.prems(2) have dr: "distinct rest" and nt: "token \<notin> set rest" by auto
  note IH = Cons.IH[OF rec dr]
  have p: "\<And>t. t \<noteq> token \<Longrightarrow> get_posting_list idx3 t = get_posting_list idx t"
    by (rule get_posting_list_cong) (simp add: ix3)
  have q: "\<And>t. t \<noteq> token \<Longrightarrow> dict_get (doc_freq idx3) t 0 = dict_get (doc_freq idx) t 0"
    by (rule dict_get_cong) (simp add: df3)
  from IH have I1: "\<And>t. map_of (index idx') t =
           (if t \<in> set rest then Some (finsert d (get_posting_list idx3 t))
            else map_of (index idx3) t)"
    and I2: "\<And>t. map_of (doc_freq idx') t =
           (if t \<in> set rest then Some (dict_get (doc_freq idx3) t 0 + 1)
            else map_of (doc_freq idx3) t)"
    and I3: "index_is_defaultdict idx' = index_is_defaultdict idx3"
    and I4: "distinct (map fst (index idx3)) \<Longrightarrow> distinct (map fst (index idx'))"
    and I5: "distinct (map fst (doc_freq idx3)) \<Longrightarrow> distinct (map fst (doc_freq idx'))"
    by blast+
  have 1: "map_of (index idx') t =
           (if t \<in> set (token # rest) then Some (finsert d (get_posting_list idx t))
            else map_of (index idx) t)" for t
  proof (cases "t = token")
    case True
    then show ?thesis using nt I1[of t] by (simp add: ix3)
  next
    case False
    then show ?thesis using I1[of t] p[of t] by (simp add: ix3)
  qed
  have 2: "map_of (doc_freq idx') t =
           (if t \<in> set (token # rest) then Some (dict_get (doc_freq idx) t 0 + 1)
            else map_of (doc_freq idx) t)" for t
  proof (cases "t = token")
    case True
    then show ?thesis using nt I2[of t] by (simp add: df3)
  next
    case False
    then show ?thesis using I2[of t] q[of t] by (simp add: df3)
  qed
  show ?case
  proof (intro conjI allI impI)
    show "index_is_defaultdict idx' = index_is_defaultdict idx" using I3 dd3 by simp
    show "distinct (map fst (index idx'))" if "distinct (map fst (index idx))"
      using I4 di3 that by blast
    show "distinct (map fst (doc_freq idx'))" if "distinct (map fst (doc_freq idx))"
      using I5 dq3 that by blast
  qed (rule 1 2)+
qed

lemma index_tokens_keys:
  assumes "index_tokens d ts idx = Inr idx'" and "distinct ts"
  shows "fst ` set (index idx') = set ts \<union> fst ` set (index idx)"
    and "fst ` set (doc_freq idx') = set ts \<union> fst ` set (doc_freq idx)"
  unfolding dom_map_of_conv_image_fst[symmetric]
  using index_tokens_Inr_aux[OF assms] by (auto simp: dom_def)

text \<open>The loop fails exactly on a plain dictionary that lacks one of the tokens.\<close>

lemma index_tokens_Inl:
  "index_tokens d ts idx = Inl e \<longleftrightarrow>
     e = KeyError \<and> \<not> index_is_defaultdict idx \<and> \<not> set ts \<subseteq> fst ` set (index idx)"
proof (induction ts arbitrary: idx)
  case Nil
  then show ?case by simp
next
  case (Cons token rest)
  show ?case
  proof (cases "index_getitem idx token")
    case (Inl e')
    then show ?thesis using index_getitem_Inl[of idx token e'] by auto
  next
    case (Inr p)
    obtain s idx1 where p: "p = (s, idx1)" by (cases p)
    note G = index_getitem_Inr[OF Inr[unfolded p]]
    have not_err: "token \<in> fst ` set (index idx) \<or> index_is_defaultdict idx"
      using Inr index_getitem_Inl[of idx token KeyError] by auto
    define idx3 where "idx3 = idx1\<lparr>index := AList.update token (finsert d s) (index idx1),
       doc_freq := AList.update token (dict_get (doc_freq idx1) token 0 + 1) (doc_freq idx1)\<rparr>"
    have step: "index_tokens d (token # rest) idx = index_tokens d rest idx3"
      using Inr p by (simp add: idx3_def Let_def)
    have k3: "fst ` set (index idx3) = insert token (fst ` set (index idx))"
      using G(5) by (simp add: idx3_def dom_update)
    have dd3: "index_is_defaultdict idx3 = index_is_defaultdict idx"
      by (simp add: idx3_def G(4))
    show ?thesis unfolding step Cons.IH[of idx3] k3 dd3 using not_err by auto
  qed
qed


subsection \<open>The consistency invariant\<close>

lemma consistent_iff:
  "consistent idx \<longleftrightarrow>
     distinct (map fst (index idx)) \<and> distinct (map fst (doc_freq idx)) \<and>
     (\<forall>t s. map_of (index idx) t = Some s \<longrightarrow> map_of (doc_freq idx) t = Some (int (fcard s))) \<and>
     (\<forall>t. map_of (index idx) t = None \<longrightarrow> map_of (doc_freq idx) t = None)"
proof (cases "distinct (map fst (index idx))")
  case False
  then show ?thesis by (simp add: consistent_def)
next
  case True
  have a: "doc_freq_matches idx \<longleftrightarrow>
      (\<forall>t s. map_of (index idx) t = Some s \<longrightarrow> map_of (doc_freq idx) t = Some (int (fcard s)))"
    using True by (auto simp: doc_freq_matches_def list_all_iff)
  have b: "list_all (\<lambda>term. map_of (index idx) term \<noteq> None) (map fst (doc_freq idx)) \<longleftrightarrow>
      (\<forall>t. map_of (index idx) t = None \<longrightarrow> map_of (doc_freq idx) t = None)"
    unfolding list_all_iff map_of_None_key by auto
  show ?thesis unfolding consistent_def a b using True by simp
qed

lemma doc_freq_matches_lookup:
  assumes "doc_freq_matches idx" and "map_of (index idx) t = Some s"
  shows "map_of (doc_freq idx) t = Some (int (fcard s))"
  using assms map_of_SomeD[OF assms(2)] by (auto simp: doc_freq_matches_def list_all_iff)

lemma doc_in_index_iff:
  assumes "distinct (map fst (index idx))"
  shows "doc_in_index idx d \<longleftrightarrow> (\<exists>t s. map_of (index idx) t = Some s \<and> d |\<in>| s)"
  using assms by (auto simp: doc_in_index_def list_ex_iff)

lemma no_empty_postings_iff:
  assumes "distinct (map fst (index idx))"
  shows "no_empty_postings idx \<longleftrightarrow> (\<forall>t. map_of (index idx) t \<noteq> Some {||})"
  using assms by (auto simp: no_empty_postings_def list_all_iff)

lemma get_posting_list_Some: "map_of (index idx) t = Some s \<Longrightarrow> get_posting_list idx t = s"
  and get_posting_list_None: "map_of (index idx) t = None \<Longrightarrow> get_posting_list idx t = {||}"
  by (simp_all add: get_posting_list_def dict_get_def)

text \<open>Adding a document whose identifier is not yet listed under any of its terms.\<close>

lemma index_tokens_consistent:
  assumes ok: "index_tokens d ts idx = Inr idx'" and dt: "distinct ts"
    and c: "consistent idx"
    and fresh: "\<And>t. t \<in> set ts \<Longrightarrow> d |\<notin>| get_posting_list idx t"
  shows "consistent idx'"
proof -
  note A = index_tokens_Inr_aux[OF ok dt]
  from A have ix: "\<And>t. map_of (index idx') t =
           (if t \<in> set ts then Some (finsert d (get_posting_list idx t)) else map_of (index idx) t)"
    and df: "\<And>t. map_of (doc_freq idx') t =
           (if t \<in> set ts then Some (dict_get (doc_freq idx) t 0 + 1) else map_of (doc_freq idx) t)"
    by blast+
  from c have C: "distinct (map fst (index idx))" "distinct (map fst (doc_freq idx))"
    "\<And>t s. map_of (index idx) t = Some s \<Longrightarrow> map_of (doc_freq idx) t = Some (int (fcard s))"
    "\<And>t. map_of (index idx) t = None \<Longrightarrow> map_of (doc_freq idx) t = None"
    unfolding consistent_iff by blast+
  have cnt: "dict_get (doc_freq idx) t 0 + 1 = int (fcard (finsert d (get_posting_list idx t)))"
    if "t \<in> set ts" for t
  proof (cases "map_of (index idx) t")
    case None
    then show ?thesis
      by (simp add: C(4) get_posting_list_None dict_get_def fcard_finsert_if fcard_fempty)
  next
    case (Some s)
    then show ?thesis using fresh[OF that]
      by (simp add: C(3) get_posting_list_Some dict_get_def fcard_finsert_if)
  qed
  show ?thesis unfolding consistent_iff
  proof (intro conjI allI impI)
    show "distinct (map fst (index idx'))" "distinct (map fst (doc_freq idx'))"
      using A C(1,2) by blast+
    show "map_of (doc_freq idx') t = Some (int (fcard s))" if "map_of (index idx') t = Some s" for t s
      using that cnt[of t] C(3)[of t s] by (auto simp: ix df split: if_splits)
    show "map_of (doc_freq idx') t = None" if "map_of (index idx') t = None" for t
      using that C(4)[of t] by (auto simp: ix df split: if_splits)
  qed
qed


subsection \<open>Removing a document\<close>

lemma remove_scan_Inr:
  assumes "distinct (map fst items)"
    and "\<forall>t s. (t, s) \<in> set items \<longrightarrow> d |\<in>| s \<longrightarrow> map_of (doc_freq idx) t \<noteq> None"
  shows "\<exists>idx' ttr'. remove_scan d items idx ttr = Inr (idx', ttr')
     \<and> (\<forall>t. map_of (index idx') t =
            (case map_of items t of
               Some s \<Rightarrow> if d |\<in>| s then Some (s |-| {|d|}) else map_of (index idx) t
             | None \<Rightarrow> map_of (index idx) t))
     \<and> (\<forall>t. map_of (doc_freq idx') t =
            (case map_of items t of
               Some s \<Rightarrow> if d |\<in>| s then map_option (\<lambda>n. n - 1) (map_of (doc_freq idx) t)
                         else map_of (doc_freq idx) t
             | None \<Rightarrow> map_of (doc_freq idx) t))
     \<and> ttr' = ttr @ filter (\<lambda>t. (case map_of items t of Some s \<Rightarrow> d |\<in>| s | None \<Rightarrow> False)
                               \<and> map_of (doc_freq idx) t = Some 1) (map fst items)
     \<and> index_is_defaultdict idx' = index_is_defaultdict idx
     \<and> (distinct (map fst (index idx)) \<longrightarrow> distinct (map fst (index idx')))
     \<and> (distinct (map fst (doc_freq idx)) \<longrightarrow> distinct (map fst (doc_freq idx')))"
  using assms
proof (induction items arbitrary: idx ttr)
  case Nil
  then show ?case by simp
next
  case (Cons item rest)
  obtain tm s where item: "item = (tm, s)" by (cases item)
  from Cons.prems(1) have dr: "distinct (map fst rest)" and nk: "tm \<notin> fst ` set rest"
    by (auto simp: item)
  have mr: "map_of rest tm = None" using nk by (simp add: map_of_None_key)
  have other: "map_of (item # rest) t = map_of rest t" if "t \<noteq> tm" for t
    using that by (simp add: item)
  show ?case
  proof (cases "d |\<in>| s")
    case False
    have pre: "\<forall>t s'. (t, s') \<in> set rest \<longrightarrow> d |\<in>| s' \<longrightarrow> map_of (doc_freq idx) t \<noteq> None"
      using Cons.prems(2) by auto
    from Cons.IH[where idx=idx and ttr=ttr, OF dr pre] obtain idx' ttr' where
      R: "remove_scan d rest idx ttr = Inr (idx', ttr')"
      and I1: "\<And>t. map_of (index idx') t =
            (case map_of rest t of
               Some s \<Rightarrow> if d |\<in>| s then Some (s |-| {|d|}) else map_of (index idx) t
             | None \<Rightarrow> map_of (index idx) t)"
      and I2: "\<And>t. map_of (doc_freq idx') t =
            (case map_of rest t of
               Some s \<Rightarrow> if d |\<in>| s then map_option (\<lambda>n. n - 1) (map_of (doc_freq idx) t)
                         else map_of (doc_freq idx) t
             | None \<Rightarrow> map_of (doc_freq idx) t)"
      and I3: "ttr' = ttr @ filter (\<lambda>t. (case map_of rest t of Some s \<Rightarrow> d |\<in>| s | None \<Rightarrow> False)
                               \<and> map_of (doc_freq idx) t = Some 1) (map fst rest)"
      and I4: "index_is_defaultdict idx' = index_is_defaultdict idx"
      and I5: "distinct (map fst (index idx)) \<longrightarrow> distinct (map fst (index idx'))"
      and I6: "distinct (map fst (doc_freq idx)) \<longrightarrow> distinct (map fst (doc_freq idx'))"
      by blast
    have step: "remove_scan d (item # rest) idx ttr = Inr (idx', ttr')"
      using False R by (simp add: item)
    have 1: "map_of (index idx') t =
            (case map_of (item # rest) t of
               Some s \<Rightarrow> if d |\<in>| s then Some (s |-| {|d|}) else map_of (index idx) t
             | None \<Rightarrow> map_of (index idx) t)" for t
      using I1[of t] False mr by (cases "t = tm") (simp_all add: item)
    have 2: "map_of (doc_freq idx') t =
            (case map_of (item # rest) t of
               Some s \<Rightarrow> if d |\<in>| s then map_option (\<lambda>n. n - 1) (map_of (doc_freq idx) t)
                         else map_of (doc_freq idx) t
             | None \<Rightarrow> map_of (doc_freq idx) t)" for t
      using I2[of t] False mr by (cases "t = tm") (simp_all add: item)
    have f: "filter (\<lambda>t. (case map_of (item # rest) t of Some s \<Rightarrow> d |\<in>| s | None \<Rightarrow> False)
                               \<and> map_of (doc_freq idx) t = Some 1) (map fst rest)
           = filter (\<lambda>t. (case map_of rest t of Some s \<Rightarrow> d |\<in>| s | None \<Rightarrow> False)
                               \<and> map_of (doc_freq idx) t = Some 1) (map fst rest)"
      using nk by (intro filter_cong refl) (auto simp: item)
    have 3: "ttr' = ttr @ filter (\<lambda>t. (case map_of (item # rest) t of Some s \<Rightarrow> d |\<in>| s | None \<Rightarrow> False)
                               \<and> map_of (doc_freq idx) t = Some 1) (map fst (item # rest))"
      unfolding I3 using f False by (simp add: item)
    show ?thesis
      apply (rule exI[of _ idx'], rule exI[of _ ttr'])
      using step 1 2 3 I4 I5 I6 by blast
  next
    case True
    from Cons.prems(2) True obtain n where n: "map_of (doc_freq idx) tm = Some n"
      by (auto simp: item)
    define idx1 where "idx1 = idx\<lparr>index := AList.update tm (s |-| {|d|}) (index idx)\<rparr>"
    define idx2 where "idx2 = idx1\<lparr>doc_freq := AList.update tm (n - 1) (doc_freq idx1)\<rparr>"
    define ttr2 where "ttr2 = (if n - 1 = 0 then ttr @ [tm] else ttr)"
    have step: "remove_scan d (item # rest) idx ttr = remove_scan d rest idx2 ttr2"
      using True n by (simp add: item idx1_def idx2_def ttr2_def Let_def)
    have ix2: "map_of (index idx2) = (map_of (index idx))(tm \<mapsto> s |-| {|d|})"
      by (simp add: idx2_def idx1_def update_conv')
    have df2: "map_of (doc_freq idx2) = (map_of (doc_freq idx))(tm \<mapsto> n - 1)"
      by (simp add: idx2_def idx1_def update_conv')
    have pre: "\<forall>t s'. (t, s') \<in> set rest \<longrightarrow> d |\<in>| s' \<longrightarrow> map_of (doc_freq idx2) t \<noteq> None"
      using Cons.prems(2) by (auto simp: df2)
    from Cons.IH[where idx=idx2 and ttr=ttr2, OF dr pre] obtain idx' ttr' where
      R: "remove_scan d rest idx2 ttr2 = Inr (idx', ttr')"
      and I1: "\<And>t. map_of (index idx') t =
            (case map_of rest t of
               Some s \<Rightarrow> if d |\<in>| s then Some (s |-| {|d|}) else map_of (index idx2) t
             | None \<Rightarrow> map_of (index idx2) t)"
      and I2: "\<And>t. map_of (doc_freq idx') t =
            (case map_of rest t of
               Some s \<Rightarrow> if d |\<in>| s then map_option (\<lambda>n. n - 1) (map_of (doc_freq idx2) t)
                         else map_of (doc_freq idx2) t
             | None \<Rightarrow> map_of (doc_freq idx2) t)"
      and I3: "ttr' = ttr2 @ filter (\<lambda>t. (case map_of rest t of Some s \<Rightarrow> d |\<in>| s | None \<Rightarrow> False)
                               \<and> map_of (doc_freq idx2) t = Some 1) (map fst rest)"
      and I4: "index_is_defaultdict idx' = index_is_defaultdict idx2"
      and I5: "distinct (map fst (index idx2)) \<longrightarrow> distinct (map fst (index idx'))"
      and I6: "distinct (map fst (doc_freq idx2)) \<longrightarrow> distinct (map fst (doc_freq idx'))"
      by blast
    have 1: "map_of (index idx') t =
            (case map_of (item # rest) t of
               Some s \<Rightarrow> if d |\<in>| s then Some (s |-| {|d|}) else map_of (index idx) t
             | None \<Rightarrow> map_of (index idx) t)" for t
      using I1[of t] True mr by (cases "t = tm") (simp_all add: item ix2 split: option.splits)
    have 2: "map_of (doc_freq idx') t =
            (case map_of (item # rest) t of
               Some s \<Rightarrow> if d |\<in>| s then map_option (\<lambda>n. n - 1) (map_of (doc_freq idx) t)
                         else map_of (doc_freq idx) t
             | None \<Rightarrow> map_of (doc_freq idx) t)" for t
      using I2[of t] True mr n by (cases "t = tm") (simp_all add: item df2 split: option.splits)
    have f: "filter (\<lambda>t. (case map_of (item # rest) t of Some s \<Rightarrow> d |\<in>| s | None \<Rightarrow> False)
                               \<and> map_of (doc_freq idx) t = Some 1) (map fst rest)
           = filter (\<lambda>t. (case map_of rest t of Some s \<Rightarrow> d |\<in>| s | None \<Rightarrow> False)
                               \<and> map_of (doc_freq idx2) t = Some 1) (map fst rest)"
      using nk by (intro filter_cong refl) (auto simp: item df2)
    have 3: "ttr' = ttr @ filter (\<lambda>t. (case map_of (item # rest) t of Some s \<Rightarrow> d |\<in>| s | None \<Rightarrow> False)
                               \<and> map_of (doc_freq idx) t = Some 1) (map fst (item # rest))"
      unfolding I3 f[symmetric] using True n by (simp add: item ttr2_def)
    have 4: "index_is_defaultdict idx' = index_is_defaultdict idx"
      using I4 by (simp add: idx2_def idx1_def)
    have 5: "distinct (map fst (index idx)) \<longrightarrow> distinct (map fst (index idx'))"
      using I5 by (simp add: idx2_def idx1_def distinct_update)
    have 6: "distinct (map fst (doc_freq idx)) \<longrightarrow> distinct (map fst (doc_freq idx'))"
      using I6 by (simp add: idx2_def idx1_def distinct_update)
    show ?thesis
      apply (rule exI[of _ idx'], rule exI[of _ ttr'])
      unfolding step using R 1 2 3 4 5 6 by blast
  qed
qed

lemma remove_terms_Inr:
  assumes "distinct ts"
    and "\<forall>t\<in>set ts. map_of (index idx) t \<noteq> None \<and> map_of (doc_freq idx) t \<noteq> None"
  shows "\<exists>idx'. remove_terms ts idx = Inr idx'
     \<and> (\<forall>t. map_of (index idx') t = (if t \<in> set ts then None else map_of (index idx) t))
     \<and> (\<forall>t. map_of (doc_freq idx') t = (if t \<in> set ts then None else map_of (doc_freq idx) t))
     \<and> index_is_defaultdict idx' = index_is_defaultdict idx
     \<and> (distinct (map fst (index idx)) \<longrightarrow> distinct (map fst (index idx')))
     \<and> (distinct (map fst (doc_freq idx)) \<longrightarrow> distinct (map fst (doc_freq idx')))"
  using assms
proof (induction ts arbitrary: idx)
  case Nil
  then show ?case by simp
next
  case (Cons tm rest)
  define idx1 where "idx1 = idx\<lparr>index := AList.delete tm (index idx),
                  doc_freq := AList.delete tm (doc_freq idx)\<rparr>"
  from Cons.prems(2) obtain a b where
    "map_of (index idx) tm = Some a" "map_of (doc_freq idx) tm = Some b" by auto
  then have step: "remove_terms (tm # rest) idx = remove_terms rest idx1"
    by (simp add: idx1_def)
  have ix1: "map_of (index idx1) = (map_of (index idx))(tm := None)"
    and df1: "map_of (doc_freq idx1) = (map_of (doc_freq idx))(tm := None)"
    by (simp_all add: idx1_def delete_conv')
  from Cons.prems(1) have dr: "distinct rest" and nt: "tm \<notin> set rest" by auto
  have pre: "\<forall>t\<in>set rest. map_of (index idx1) t \<noteq> None \<and> map_of (doc_freq idx1) t \<noteq> None"
    using Cons.prems(2) nt by (auto simp: ix1 df1)
  from Cons.IH[where idx=idx1, OF dr pre] obtain idx' where
    R: "remove_terms rest idx1 = Inr idx'"
    and I1: "\<And>t. map_of (index idx') t = (if t \<in> set rest then None else map_of (index idx1) t)"
    and I2: "\<And>t. map_of (doc_freq idx') t = (if t \<in> set rest then None else map_of (doc_freq idx1) t)"
    and I3: "index_is_defaultdict idx' = index_is_defaultdict idx1"
    and I4: "distinct (map fst (index idx1)) \<longrightarrow> distinct (map fst (index idx'))"
    and I5: "distinct (map fst (doc_freq idx1)) \<longrightarrow> distinct (map fst (doc_freq idx'))"
    by blast
  have 1: "map_of (index idx') t = (if t \<in> set (tm # rest) then None else map_of (index idx) t)" for t
    using I1[of t] by (simp add: ix1)
  have 2: "map_of (doc_freq idx') t = (if t \<in> set (tm # rest) then None else map_of (doc_freq idx) t)" for t
    using I2[of t] by (simp add: df1)
  have 3: "index_is_defaultdict idx' = index_is_defaultdict idx" using I3 by (simp add: idx1_def)
  have 4: "distinct (map fst (index idx)) \<longrightarrow> distinct (map fst (index idx'))"
    using I4 by (simp add: idx1_def distinct_delete)
  have 5: "distinct (map fst (doc_freq idx)) \<longrightarrow> distinct (map fst (doc_freq idx'))"
    using I5 by (simp add: idx1_def distinct_delete)
  show ?case
    apply (rule exI[of _ idx'])
    unfolding step using R 1 2 3 4 5 by blast
qed


text \<open>
  The whole of \<open>remove_document\<close> on a dictionary whose terms that list
  \<open>d\<close> all have a frequency entry: it completes, and a term that listed \<open>d\<close>
  loses it, its frequency drops by one, and the term disappears from both
  tables when its frequency was 1.
\<close>

lemma remove_document_Inr:
  assumes di: "distinct (map fst (index idx))"
    and pre: "\<forall>t s. map_of (index idx) t = Some s \<longrightarrow> d |\<in>| s \<longrightarrow> map_of (doc_freq idx) t \<noteq> None"
  shows "\<exists>idx'. remove_document idx d = Inr idx'
     \<and> (\<forall>t. map_of (index idx') t =
            (case map_of (index idx) t of
               None \<Rightarrow> None
             | Some s \<Rightarrow> if d |\<in>| s
                         then (if map_of (doc_freq idx) t = Some 1 then None else Some (s |-| {|d|}))
                         else Some s))
     \<and> (\<forall>t. map_of (doc_freq idx') t =
            (case map_of (index idx) t of
               None \<Rightarrow> map_of (doc_freq idx) t
             | Some s \<Rightarrow> if d |\<in>| s
                         then (if map_of (doc_freq idx) t = Some 1 then None
                               else map_option (\<lambda>n. n - 1) (map_of (doc_freq idx) t))
                         else map_of (doc_freq idx) t))
     \<and> index_is_defaultdict idx' = index_is_defaultdict idx
     \<and> distinct (map fst (index idx'))
     \<and> (distinct (map fst (doc_freq idx)) \<longrightarrow> distinct (map fst (doc_freq idx')))"
proof -
  let ?P = "\<lambda>t. (case map_of (index idx) t of Some s \<Rightarrow> d |\<in>| s | None \<Rightarrow> False)
                  \<and> map_of (doc_freq idx) t = Some 1"
  have pre': "\<forall>t s. (t, s) \<in> set (index idx) \<longrightarrow> d |\<in>| s \<longrightarrow> map_of (doc_freq idx) t \<noteq> None"
    using pre di by simp
  from remove_scan_Inr[where items="index idx" and idx=idx and ttr="[]", OF di pre']
  obtain idx1 ttr1 where
    S: "remove_scan d (index idx) idx [] = Inr (idx1, ttr1)"
    and S1: "\<And>t. map_of (index idx1) t =
            (case map_of (index idx) t of
               Some s \<Rightarrow> if d |\<in>| s then Some (s |-| {|d|}) else map_of (index idx) t
             | None \<Rightarrow> map_of (index idx) t)"
    and S2: "\<And>t. map_of (doc_freq idx1) t =
            (case map_of (index idx) t of
               Some s \<Rightarrow> if d |\<in>| s then map_option (\<lambda>n. n - 1) (map_of (doc_freq idx) t)
                         else map_of (doc_freq idx) t
             | None \<Rightarrow> map_of (doc_freq idx) t)"
    and S3: "ttr1 = [] @ filter ?P (map fst (index idx))"
    and S4: "index_is_defaultdict idx1 = index_is_defaultdict idx"
    and S5: "distinct (map fst (index idx)) \<longrightarrow> distinct (map fst (index idx1))"
    and S6: "distinct (map fst (doc_freq idx)) \<longrightarrow> distinct (map fst (doc_freq idx1))"
    by blast
  have dt: "distinct ttr1" using di by (simp add: S3)
  have mem: "t \<in> set ttr1 \<longleftrightarrow> ?P t" for t
  proof -
    have "?P t \<Longrightarrow> t \<in> fst ` set (index idx)"
      by (cases "map_of (index idx) t") (auto dest: map_of_Some_key)
    then show ?thesis by (auto simp: S3)
  qed
  have pre2: "\<forall>t\<in>set ttr1. map_of (index idx1) t \<noteq> None \<and> map_of (doc_freq idx1) t \<noteq> None"
  proof
    fix t assume "t \<in> set ttr1"
    then have "?P t" by (simp add: mem)
    then show "map_of (index idx1) t \<noteq> None \<and> map_of (doc_freq idx1) t \<noteq> None"
      by (cases "map_of (index idx) t") (simp_all add: S1 S2)
  qed
  from remove_terms_Inr[where idx=idx1, OF dt pre2] obtain idx' where
    R: "remove_terms ttr1 idx1 = Inr idx'"
    and R1: "\<And>t. map_of (index idx') t = (if t \<in> set ttr1 then None else map_of (index idx1) t)"
    and R2: "\<And>t. map_of (doc_freq idx') t = (if t \<in> set ttr1 then None else map_of (doc_freq idx1) t)"
    and R3: "index_is_defaultdict idx' = index_is_defaultdict idx1"
    and R4: "distinct (map fst (index idx1)) \<longrightarrow> distinct (map fst (index idx'))"
    and R5: "distinct (map fst (doc_freq idx1)) \<longrightarrow> distinct (map fst (doc_freq idx'))"
    by blast
  have 0: "remove_document idx d = Inr idx'" by (simp add: remove_document_def S R)
  have 1: "map_of (index idx') t =
            (case map_of (index idx) t of
               None \<Rightarrow> None
             | Some s \<Rightarrow> if d |\<in>| s
                         then (if map_of (doc_freq idx) t = Some 1 then None else Some (s |-| {|d|}))
                         else Some s)" for t
    by (cases "map_of (index idx) t") (simp_all add: R1 mem S1)
  have 2: "map_of (doc_freq idx') t =
            (case map_of (index idx) t of
               None \<Rightarrow> map_of (doc_freq idx) t
             | Some s \<Rightarrow> if d |\<in>| s
                         then (if map_of (doc_freq idx) t = Some 1 then None
                               else map_option (\<lambda>n. n - 1) (map_of (doc_freq idx) t))
                         else map_of (doc_freq idx) t)" for t
    by (cases "map_of (index idx) t") (simp_all add: R2 mem S2)
  show ?thesis
    apply (rule exI[of _ idx'])
    using 0 1 2 R3 S4 R4 S5 di R5 S6 by auto
qed

lemma remove_document_consistent:
  assumes c: "consistent idx"
  shows "\<exists>idx'. remove_document idx d = Inr idx' \<and> consistent idx'
           \<and> index_is_defaultdict idx' = index_is_defaultdict idx
           \<and> (\<forall>t. map_of (index idx') t =
                 (case map_of (index idx) t of
                    None \<Rightarrow> None
                  | Some s \<Rightarrow> if d |\<in>| s then (if fcard s = 1 then None else Some (s |-| {|d|}))
                              else Some s))"
proof -
  from c have C: "distinct (map fst (index idx))" "distinct (map fst (doc_freq idx))"
    "\<And>t s. map_of (index idx) t = Some s \<Longrightarrow> map_of (doc_freq idx) t = Some (int (fcard s))"
    "\<And>t. map_of (index idx) t = None \<Longrightarrow> map_of (doc_freq idx) t = None"
    unfolding consistent_iff by blast+
  have pre: "\<forall>t s. map_of (index idx) t = Some s \<longrightarrow> d |\<in>| s \<longrightarrow> map_of (doc_freq idx) t \<noteq> None"
    using C(3) by simp
  from remove_document_Inr[OF C(1) pre] obtain idx' where
    R: "remove_document idx d = Inr idx'"
    and R1: "\<And>t. map_of (index idx') t =
            (case map_of (index idx) t of
               None \<Rightarrow> None
             | Some s \<Rightarrow> if d |\<in>| s
                         then (if map_of (doc_freq idx) t = Some 1 then None else Some (s |-| {|d|}))
                         else Some s)"
    and R2: "\<And>t. map_of (doc_freq idx') t =
            (case map_of (index idx) t of
               None \<Rightarrow> map_of (doc_freq idx) t
             | Some s \<Rightarrow> if d |\<in>| s
                         then (if map_of (doc_freq idx) t = Some 1 then None
                               else map_option (\<lambda>n. n - 1) (map_of (doc_freq idx) t))
                         else map_of (doc_freq idx) t)"
    and R3: "index_is_defaultdict idx' = index_is_defaultdict idx"
    and R4: "distinct (map fst (index idx'))"
    and R5: "distinct (map fst (doc_freq idx)) \<longrightarrow> distinct (map fst (doc_freq idx'))"
    by blast
  have card: "int (fcard (s |-| {|d|})) = int (fcard s) - 1" if "d |\<in>| s" for s
  proof -
    have ge: "1 \<le> fcard s" using fcard_fminus1_less[OF that] by linarith
    have "fcard (s |-| {|d|}) = fcard s - 1" using that by (simp add: fcard_fminus_fsingleton_if)
    with ge show ?thesis by (simp only: of_nat_diff[OF ge])
  qed
  have 1: "map_of (index idx') t =
                 (case map_of (index idx) t of
                    None \<Rightarrow> None
                  | Some s \<Rightarrow> if d |\<in>| s then (if fcard s = 1 then None else Some (s |-| {|d|}))
                              else Some s)" for t
    by (cases "map_of (index idx) t") (simp_all add: R1 C(3))
  have "consistent idx'" unfolding consistent_iff
  proof (intro conjI allI impI)
    show "distinct (map fst (index idx'))" by (rule R4)
    show "distinct (map fst (doc_freq idx'))" using R5 C(2) by blast
    show "map_of (doc_freq idx') t = Some (int (fcard s'))" if "map_of (index idx') t = Some s'" for t s'
    proof (cases "map_of (index idx) t")
      case None
      with that show ?thesis by (simp add: R1)
    next
      case (Some s)
      with that show ?thesis using card[of s]
        by (auto simp: R1 R2 C(3)[OF Some] split: if_splits)
    qed
    show "map_of (doc_freq idx') t = None" if "map_of (index idx') t = None" for t
    proof (cases "map_of (index idx) t")
      case None
      then show ?thesis by (simp add: R2 C(4))
    next
      case (Some s)
      with that show ?thesis by (auto simp: R1 R2 C(3)[OF Some] split: if_splits)
    qed
  qed
  with R R3 1 show ?thesis by blast
qed


subsection \<open>Merging and building\<close>

lemma merge_loop_consistent:
  "merge_loop other idx = Inr idx' \<Longrightarrow> consistent idx \<Longrightarrow> consistent idx'"
proof (induction other arbitrary: idx)
  case Nil
  then show ?case by simp
next
  case (Cons item rest)
  obtain tm ids where item: "item = (tm, ids)" by (cases item)
  from Cons.prems(1) obtain own idx1 where g: "index_getitem idx tm = Inr (own, idx1)"
    by (cases "index_getitem idx tm") (auto simp: item)
  define idx3 where "idx3 = idx1\<lparr>index := AList.update tm (own |\<union>| ids) (index idx1),
      doc_freq := AList.update tm (int (fcard (own |\<union>| ids))) (doc_freq idx1)\<rparr>"
  have rec: "merge_loop rest idx3 = Inr idx'"
    using Cons.prems(1) g by (simp add: item idx3_def Let_def)
  note G = index_getitem_Inr[OF g]
  from Cons.prems(2) have C: "distinct (map fst (index idx))" "distinct (map fst (doc_freq idx))"
    "\<And>t s. map_of (index idx) t = Some s \<Longrightarrow> map_of (doc_freq idx) t = Some (int (fcard s))"
    "\<And>t. map_of (index idx) t = None \<Longrightarrow> map_of (doc_freq idx) t = None"
    unfolding consistent_iff by blast+
  have ix3: "map_of (index idx3) = (map_of (index idx))(tm \<mapsto> own |\<union>| ids)"
    by (simp add: idx3_def update_conv' G(2))
  have df3: "map_of (doc_freq idx3) = (map_of (doc_freq idx))(tm \<mapsto> int (fcard (own |\<union>| ids)))"
    by (simp add: idx3_def update_conv' G(3))
  have "consistent idx3" unfolding consistent_iff
  proof (intro conjI allI impI)
    show "distinct (map fst (index idx3))" using G(6)[OF C(1)] by (simp add: idx3_def distinct_update)
    show "distinct (map fst (doc_freq idx3))" using C(2) by (simp add: idx3_def distinct_update G(3))
    show "map_of (doc_freq idx3) t = Some (int (fcard s))" if "map_of (index idx3) t = Some s" for t s
      using that C(3)[of t s] by (cases "t = tm") (simp_all add: ix3 df3)
    show "map_of (doc_freq idx3) t = None" if "map_of (index idx3) t = None" for t
      using that C(4)[of t] by (cases "t = tm") (simp_all add: ix3 df3)
  qed
  from Cons.IH[OF rec this] show ?case .
qed

lemma index_tokens_doc_in_index:
  assumes ok: "index_tokens d ts idx = Inr idx'" and dt: "distinct ts"
    and di: "distinct (map fst (index idx))" and x: "doc_in_index idx' x"
  shows "x = d \<or> doc_in_index idx x"
proof -
  note A = index_tokens_Inr_aux[OF ok dt]
  from A di have di': "distinct (map fst (index idx'))" by blast
  from A have ix: "\<And>t. map_of (index idx') t =
           (if t \<in> set ts then Some (finsert d (get_posting_list idx t)) else map_of (index idx) t)"
    by blast
  from x obtain t s' where ts': "map_of (index idx') t = Some s'" "x |\<in>| s'"
    unfolding doc_in_index_iff[OF di'] by blast
  show ?thesis
  proof (cases "map_of (index idx) t")
    case None
    with ts' show ?thesis by (auto simp: ix get_posting_list_None split: if_splits)
  next
    case (Some s)
    with ts' have "x = d \<or> x |\<in>| s" by (auto simp: ix get_posting_list_Some split: if_splits)
    then show ?thesis using Some unfolding doc_in_index_iff[OF di] by blast
  qed
qed

lemma not_doc_in_index_fresh:
  assumes "distinct (map fst (index idx))" and "\<not> doc_in_index idx d"
  shows "d |\<notin>| get_posting_list idx t"
proof (cases "map_of (index idx) t")
  case None
  then show ?thesis by (simp add: get_posting_list_None)
next
  case (Some s)
  with assms show ?thesis unfolding doc_in_index_iff[OF assms(1)]
    by (auto simp: get_posting_list_Some)
qed

lemma distinct_unique_tokens: "distinct (unique_tokens toks)" "set (unique_tokens toks) = set toks"
  by (simp_all add: unique_tokens_def)

lemma build_loop_consistent:
  "build_loop docs idx = Inr idx' \<Longrightarrow> consistent idx \<Longrightarrow> distinct (map doc_id docs) \<Longrightarrow>
     \<forall>doc\<in>set docs. \<not> doc_in_index idx (doc_id doc) \<Longrightarrow> consistent idx'"
proof (induction docs arbitrary: idx)
  case Nil
  then show ?case by simp
next
  case (Cons doc docs)
  from Cons.prems(1) obtain idx1 where
    s: "index_tokens (doc_id doc) (unique_tokens (tokens doc)) idx = Inr idx1"
    and r: "build_loop docs idx1 = Inr idx'"
    by (cases "index_tokens (doc_id doc) (unique_tokens (tokens doc)) idx") auto
  have di: "distinct (map fst (index idx))" using Cons.prems(2) by (simp add: consistent_iff)
  have fresh: "\<not> doc_in_index idx (doc_id doc)" using Cons.prems(4) by simp
  have c1: "consistent idx1"
    by (rule index_tokens_consistent[OF s distinct_unique_tokens(1) Cons.prems(2)])
       (rule not_doc_in_index_fresh[OF di fresh])
  have "\<forall>doc'\<in>set docs. \<not> doc_in_index idx1 (doc_id doc')"
  proof
    fix doc' assume m: "doc' \<in> set docs"
    then have "doc_id doc' \<in> doc_id ` set docs" by (rule imageI)
    then have "doc_id doc' \<noteq> doc_id doc" using Cons.prems(3) by auto
    moreover have "\<not> doc_in_index idx (doc_id doc')" using Cons.prems(4) m by simp
    ultimately show "\<not> doc_in_index idx1 (doc_id doc')"
      using index_tokens_doc_in_index[OF s distinct_unique_tokens(1) di] by blast
  qed
  moreover have "distinct (map doc_id docs)" using Cons.prems(3) by simp
  ultimately show ?case using Cons.IH[OF r c1] by blast
qed

lemma consistent_cleared: "consistent (idx\<lparr>index := [], doc_freq := []\<rparr>)"
  and not_doc_in_cleared: "\<not> doc_in_index (idx\<lparr>index := [], doc_freq := []\<rparr>) x"
  by (simp_all add: consistent_def doc_freq_matches_def doc_in_index_def)

text \<open>
  The order in which the loop visits the tokens does not matter: two
  duplicate-free enumerations of the same token set either both fail, or
  both complete with equal dictionaries.
\<close>

lemma index_tokens_order_irrelevant:
  assumes "distinct ts" "distinct ts'" "set ts = set ts'"
    and ok: "index_tokens d ts idx = Inr a"
  shows "\<exists>b. index_tokens d ts' idx = Inr b
           \<and> map_of (index b) = map_of (index a) \<and> map_of (doc_freq b) = map_of (doc_freq a)"
proof (cases "index_tokens d ts' idx")
  case (Inl e)
  then have "index_tokens d ts idx = Inl e"
    using index_tokens_Inl[of d ts' idx e] index_tokens_Inl[of d ts idx e] assms(3) by simp
  with ok show ?thesis by simp
next
  case (Inr b)
  note A = index_tokens_Inr_aux[OF ok assms(1)]
  note B = index_tokens_Inr_aux[OF Inr assms(2)]
  have "map_of (index b) t = map_of (index a) t" for t
    using A B assms(3) by simp
  moreover have "map_of (doc_freq b) t = map_of (doc_freq a) t" for t
    using A B assms(3) by simp
  ultimately show ?thesis using Inr by blast
qed

text \<open>
  Claim C1, as the code has it. A state is \<open>consistent\<close> when both tables are
  dictionaries, every term of the index has a frequency equal to the size of
  its posting set, and the frequency table has no term outside the index.
  \<^item> \<open>build_index\<close> over documents with pairwise distinct identifiers, from
    any state, ends in a consistent state whenever it completes;
  \<^item> \<open>add_document\<close> keeps consistency provided the identifier is not yet
    listed under any term of the added document;
  \<^item> \<open>remove_document\<close> and \<open>merge_indexes\<close> keep consistency;
  \<^item> in a consistent state \<open>doc_freq[t] = |index[t]|\<close> for every term of
    the index.
\<close>

theorem doc_freq_invariant_maintained:
  "(distinct (map doc_id docs) \<and> build_index start docs = Inr built \<longrightarrow> consistent built)
   \<and> (consistent idx \<and> (\<forall>t\<in>set toks. d |\<notin>| get_posting_list idx t)
        \<and> add_document idx d toks = Inr added \<longrightarrow> consistent added)
   \<and> (consistent idx \<and> remove_document idx d' = Inr removed \<longrightarrow> consistent removed)
   \<and> (consistent idx \<and> merge_indexes idx other = Inr merged \<longrightarrow> consistent merged)
   \<and> (consistent idx \<longrightarrow> doc_freq_matches idx)"
proof (intro conjI impI)
  assume "distinct (map doc_id docs) \<and> build_index start docs = Inr built"
  then show "consistent built"
    using build_loop_consistent[OF _ consistent_cleared, of docs start built] not_doc_in_cleared
    by (simp add: build_index_def)
next
  assume a: "consistent idx \<and> (\<forall>t\<in>set toks. d |\<notin>| get_posting_list idx t)
        \<and> add_document idx d toks = Inr added"
  show "consistent added"
    by (rule index_tokens_consistent[of d "unique_tokens toks" idx])
       (use a in \<open>simp_all add: add_document_def distinct_unique_tokens\<close>)
next
  assume "consistent idx \<and> remove_document idx d' = Inr removed"
  then show "consistent removed" using remove_document_consistent[of idx d'] by auto
next
  assume "consistent idx \<and> merge_indexes idx other = Inr merged"
  then show "consistent merged" using merge_loop_consistent[of other idx merged]
    by (simp add: merge_indexes_def)
next
  assume "consistent idx"
  then show "doc_freq_matches idx" by (simp add: consistent_def)
qed


theorem doc_freq_invariant_maintained_witness:
  "distinct (map doc_id [\<lparr>doc_id = 1, tokens = [''a'']\<rparr>])
   \<and> build_index new_index [\<lparr>doc_id = 1, tokens = [''a'']\<rparr>]
        = Inr \<lparr>index = [(''a'', {|1|})], index_is_defaultdict = True, doc_freq = [(''a'', 1)]\<rparr>
   \<and> consistent \<lparr>index = [(''a'', {|1|})], index_is_defaultdict = True, doc_freq = [(''a'', 1)]\<rparr>
   \<and> 2 |\<notin>| get_posting_list
               \<lparr>index = [(''a'', {|1|})], index_is_defaultdict = True, doc_freq = [(''a'', 1)]\<rparr> ''a''
   \<and> add_document \<lparr>index = [(''a'', {|1|})], index_is_defaultdict = True, doc_freq = [(''a'', 1)]\<rparr>
        2 [''a'']
        = Inr \<lparr>index = [(''a'', {|2, 1|})], index_is_defaultdict = True, doc_freq = [(''a'', 2)]\<rparr>
   \<and> consistent \<lparr>index = [(''a'', {|2, 1|})], index_is_defaultdict = True, doc_freq = [(''a'', 2)]\<rparr>
   \<and> remove_document \<lparr>index = [(''a'', {|1|})], index_is_defaultdict = True, doc_freq = [(''a'', 1)]\<rparr> 1
        = Inr \<lparr>index = [], index_is_defaultdict = True, doc_freq = []\<rparr>
   \<and> consistent \<lparr>index = [], index_is_defaultdict = True, doc_freq = []\<rparr>
   \<and> merge_indexes \<lparr>index = [(''a'', {|1|})], index_is_defaultdict = True, doc_freq = [(''a'', 1)]\<rparr>
        [(''b'', {|3|})]
        = Inr \<lparr>index = [(''a'', {|1|}), (''b'', {|3|})], index_is_defaultdict = True,
               doc_freq = [(''a'', 1), (''b'', 1)]\<rparr>
   \<and> consistent \<lparr>index = [(''a'', {|1|}), (''b'', {|3|})], index_is_defaultdict = True,
               doc_freq = [(''a'', 1), (''b'', 1)]\<rparr>
   \<and> doc_freq_matches \<lparr>index = [(''a'', {|1|})], index_is_defaultdict = True, doc_freq = [(''a'', 1)]\<rparr>"
proof -
  let ?I = "\<lparr>index = [(''a'', {|1|})], index_is_defaultdict = True, doc_freq = [(''a'', 1)]\<rparr>"
  let ?docs = "[\<lparr>doc_id = 1, tokens = [''a'']\<rparr>]"
  have b: "distinct (map doc_id ?docs)" "build_index new_index ?docs = Inr ?I"
    by (simp_all add: build_index_def new_index_def unique_tokens_def index_getitem_def dict_get_def)
  have a: "\<forall>t\<in>set [''a'']. 2 |\<notin>| get_posting_list ?I t"
    "add_document ?I 2 [''a'']
        = Inr \<lparr>index = [(''a'', {|2, 1|})], index_is_defaultdict = True, doc_freq = [(''a'', 2)]\<rparr>"
    by (simp_all add: add_document_def unique_tokens_def index_getitem_def dict_get_def
          get_posting_list_def)
  have r: "remove_document ?I 1 = Inr \<lparr>index = [], index_is_defaultdict = True, doc_freq = []\<rparr>"
    by (simp add: remove_document_def)
  have m: "merge_indexes ?I [(''b'', {|3|})]
        = Inr \<lparr>index = [(''a'', {|1|}), (''b'', {|3|})], index_is_defaultdict = True,
               doc_freq = [(''a'', 1), (''b'', 1)]\<rparr>"
    by (simp add: merge_indexes_def index_getitem_def fcard_finsert_if fcard_fempty)
  note T = doc_freq_invariant_maintained[where docs="?docs" and start=new_index and built="?I"
      and idx="?I" and toks="[''a'']" and d=2 and d'=1 and other="[(''b'', {|3|})]"
      and added="\<lparr>index = [(''a'', {|2, 1|})], index_is_defaultdict = True, doc_freq = [(''a'', 2)]\<rparr>"
      and removed="\<lparr>index = [], index_is_defaultdict = True, doc_freq = []\<rparr>"
      and merged="\<lparr>index = [(''a'', {|1|}), (''b'', {|3|})], index_is_defaultdict = True,
               doc_freq = [(''a'', 1), (''b'', 1)]\<rparr>"]
  from T b have c: "consistent ?I" by blast
  from a(1) have a': "2 |\<notin>| get_posting_list ?I ''a''" by simp
  from T c a a' r m b show ?thesis by blast
qed

text \<open>
  Adding a document under an identifier that its term already lists: the
  posting set is unchanged and the frequency is incremented.
\<close>

theorem add_document_breaks_doc_freq_counterexample:
  "build_index new_index [\<lparr>doc_id = 1, tokens = [''a'']\<rparr>]
     = Inr \<lparr>index = [(''a'', {|1|})], index_is_defaultdict = True, doc_freq = [(''a'', 1)]\<rparr>
   \<and> doc_freq_matches \<lparr>index = [(''a'', {|1|})], index_is_defaultdict = True, doc_freq = [(''a'', 1)]\<rparr>
   \<and> add_document \<lparr>index = [(''a'', {|1|})], index_is_defaultdict = True, doc_freq = [(''a'', 1)]\<rparr>
        1 [''a'']
     = Inr \<lparr>index = [(''a'', {|1|})], index_is_defaultdict = True, doc_freq = [(''a'', 2)]\<rparr>
   \<and> \<not> doc_freq_matches
          \<lparr>index = [(''a'', {|1|})], index_is_defaultdict = True, doc_freq = [(''a'', 2)]\<rparr>"
  by (simp add: build_index_def new_index_def add_document_def unique_tokens_def index_getitem_def
        dict_get_def doc_freq_matches_def fcard_finsert_if fcard_fempty)

subsection \<open>Adding and then removing a document\<close>

lemma consistent_doc_freq_determined:
  assumes "consistent a" "consistent b" "map_of (index a) = map_of (index b)"
  shows "map_of (doc_freq a) = map_of (doc_freq b)"
proof
  fix t
  from assms(1) have A:
    "\<And>s. map_of (index a) t = Some s \<Longrightarrow> map_of (doc_freq a) t = Some (int (fcard s))"
    "map_of (index a) t = None \<Longrightarrow> map_of (doc_freq a) t = None"
    unfolding consistent_iff by blast+
  from assms(2) have B:
    "\<And>s. map_of (index b) t = Some s \<Longrightarrow> map_of (doc_freq b) t = Some (int (fcard s))"
    "map_of (index b) t = None \<Longrightarrow> map_of (doc_freq b) t = None"
    unfolding consistent_iff by blast+
  show "map_of (doc_freq a) t = map_of (doc_freq b) t"
    using A B assms(3) by (cases "map_of (index b) t") simp_all
qed

text \<open>
  Claim C7, as the code has it. In a consistent index without empty posting
  sets, adding a document under an identifier that occurs nowhere in the
  index and then removing that identifier completes and gives back the
  term-to-postings dictionary and the frequency dictionary of the start.
\<close>

theorem add_then_remove_restores:
  assumes c: "consistent idx" and ne: "no_empty_postings idx"
    and fresh: "\<not> doc_in_index idx d"
    and add: "add_document idx d toks = Inr idx1"
  shows "\<exists>idx2. remove_document idx1 d = Inr idx2
           \<and> map_of (index idx2) = map_of (index idx)
           \<and> map_of (doc_freq idx2) = map_of (doc_freq idx)"
proof -
  have di: "distinct (map fst (index idx))" using c by (simp add: consistent_iff)
  have ok: "index_tokens d (unique_tokens toks) idx = Inr idx1"
    using add by (simp add: add_document_def)
  note dt = distinct_unique_tokens(1)[of toks]
  have fr: "d |\<notin>| get_posting_list idx t" for t
    by (rule not_doc_in_index_fresh[OF di fresh])
  have c1: "consistent idx1"
    by (rule index_tokens_consistent[OF ok dt c]) (rule fr)
  from index_tokens_Inr_aux[OF ok dt] have ix1: "\<And>t. map_of (index idx1) t =
       (if t \<in> set (unique_tokens toks) then Some (finsert d (get_posting_list idx t))
        else map_of (index idx) t)"
    by blast
  from remove_document_consistent[OF c1, of d] obtain idx2 where
    R: "remove_document idx1 d = Inr idx2" and c2: "consistent idx2"
    and ix2: "\<And>t. map_of (index idx2) t =
                 (case map_of (index idx1) t of
                    None \<Rightarrow> None
                  | Some s \<Rightarrow> if d |\<in>| s then (if fcard s = 1 then None else Some (s |-| {|d|}))
                              else Some s)"
    by blast
  have same: "map_of (index idx2) t = map_of (index idx) t" for t
  proof (cases "map_of (index idx) t")
    case None
    then show ?thesis
      by (simp add: ix2 ix1 get_posting_list_None fcard_finsert_if fcard_fempty)
  next
    case (Some s)
    have "s \<noteq> {||}" using ne Some unfolding no_empty_postings_iff[OF di] by auto
    then have "fcard s \<noteq> 0" by (metis fcard_fempty fcard_0_eq finite_fset bot_fset.rep_eq fset_inject fcard.rep_eq card_eq_0_iff)
    moreover have "d |\<notin>| s" using fr[of t] Some by (simp add: get_posting_list_Some)
    ultimately show ?thesis using Some
      by (simp add: ix2 ix1 get_posting_list_Some fcard_finsert_if)
  qed
  then have "map_of (index idx2) = map_of (index idx)" by (rule ext)
  with R consistent_doc_freq_determined[OF c2 c this] show ?thesis by blast
qed


theorem add_then_remove_restores_witness:
  "consistent \<lparr>index = [(''a'', {|1|})], index_is_defaultdict = True, doc_freq = [(''a'', 1)]\<rparr>
   \<and> no_empty_postings
        \<lparr>index = [(''a'', {|1|})], index_is_defaultdict = True, doc_freq = [(''a'', 1)]\<rparr>
   \<and> \<not> doc_in_index
          \<lparr>index = [(''a'', {|1|})], index_is_defaultdict = True, doc_freq = [(''a'', 1)]\<rparr> 2
   \<and> add_document \<lparr>index = [(''a'', {|1|})], index_is_defaultdict = True, doc_freq = [(''a'', 1)]\<rparr>
        2 [''a'', ''b'']
       = Inr \<lparr>index = [(''a'', {|2, 1|}), (''b'', {|2|})], index_is_defaultdict = True,
              doc_freq = [(''a'', 2), (''b'', 1)]\<rparr>
   \<and> (\<exists>idx2. remove_document
                 \<lparr>index = [(''a'', {|2, 1|}), (''b'', {|2|})], index_is_defaultdict = True,
                    doc_freq = [(''a'', 2), (''b'', 1)]\<rparr> 2 = Inr idx2
          \<and> map_of (index idx2) = map_of [(''a'', {|1|})]
          \<and> map_of (doc_freq idx2) = map_of [(''a'', 1)])"
proof -
  let ?I = "\<lparr>index = [(''a'', {|1|})], index_is_defaultdict = True, doc_freq = [(''a'', 1)]\<rparr>"
  have c: "consistent ?I"
    by (simp add: consistent_def doc_freq_matches_def fcard_finsert_if fcard_fempty)
  have ne: "no_empty_postings ?I" by (simp add: no_empty_postings_def)
  have fr: "\<not> doc_in_index ?I 2" by (simp add: doc_in_index_def)
  have a: "add_document ?I 2 [''a'', ''b'']
       = Inr \<lparr>index = [(''a'', {|2, 1|}), (''b'', {|2|})], index_is_defaultdict = True,
              doc_freq = [(''a'', 2), (''b'', 1)]\<rparr>"
    by (simp add: add_document_def unique_tokens_def index_getitem_def dict_get_def)
  from add_then_remove_restores[OF c ne fr a] c ne fr a show ?thesis by simp
qed

text \<open>
  Adding a document under the identifier of an indexed document and removing
  that identifier also removes what the index held before.
\<close>

theorem add_then_remove_existing_id_counterexample:
  "build_index new_index [\<lparr>doc_id = 1, tokens = [''a'']\<rparr>]
     = Inr \<lparr>index = [(''a'', {|1|})], index_is_defaultdict = True, doc_freq = [(''a'', 1)]\<rparr>
   \<and> add_document \<lparr>index = [(''a'', {|1|})], index_is_defaultdict = True, doc_freq = [(''a'', 1)]\<rparr>
        1 [''b'']
     = Inr \<lparr>index = [(''a'', {|1|}), (''b'', {|1|})], index_is_defaultdict = True,
            doc_freq = [(''a'', 1), (''b'', 1)]\<rparr>
   \<and> remove_document \<lparr>index = [(''a'', {|1|}), (''b'', {|1|})], index_is_defaultdict = True,
                       doc_freq = [(''a'', 1), (''b'', 1)]\<rparr> 1
     = Inr \<lparr>index = [], index_is_defaultdict = True, doc_freq = []\<rparr>
   \<and> map_of (index \<lparr>index = [], index_is_defaultdict = True, doc_freq = []\<rparr>) ''a''
       \<noteq> map_of (index \<lparr>index = [(''a'', {|1|})], index_is_defaultdict = True,
                          doc_freq = [(''a'', 1)]\<rparr>) ''a''"
  by (simp add: build_index_def new_index_def add_document_def unique_tokens_def index_getitem_def
        dict_get_def remove_document_def)

subsection \<open>Persistence\<close>

lemma length_sorted_list_of_fset: "length (sorted_list_of_fset S) = fcard S"
  by (simp add: sorted_list_of_fset.rep_eq fcard.rep_eq)

text \<open>
  Claim C4. Saving an index and loading the file that was written succeeds;
  the loaded term-to-postings dictionary equals the saved one, and every
  loaded frequency is the length of the list stored for that term (which is
  the size of the original posting set).
\<close>

theorem save_load_roundtrip:
  "\<exists>loaded stored. save_index idx filename fs filename = Some stored
      \<and> load_index idx' filename (save_index idx filename fs) = Inr loaded
      \<and> map_of (index loaded) = map_of (index idx)
      \<and> (\<forall>t. map_of (doc_freq loaded) t = map_option (\<lambda>ids. int (length ids)) (map_of stored t))
      \<and> (\<forall>t. map_of (doc_freq loaded) t = map_option (\<lambda>s. int (fcard s)) (map_of (index idx) t))"
proof -
  define stored where
    "stored = map (\<lambda>(term, doc_ids). (term, sorted_list_of_fset doc_ids)) (index idx)"
  define loaded where
    "loaded = idx'\<lparr>index := map (\<lambda>(term, doc_ids). (term, fset_of_list doc_ids)) stored,
                   index_is_defaultdict := False,
                   doc_freq := map (\<lambda>(term, doc_ids). (term, int (length doc_ids))) stored\<rparr>"
  have s: "save_index idx filename fs filename = Some stored"
    by (simp add: save_index_def stored_def)
  have l: "load_index idx' filename (save_index idx filename fs) = Inr loaded"
    by (simp add: load_index_def save_index_def stored_def loaded_def)
  have st: "map_of stored t = map_option sorted_list_of_fset (map_of (index idx) t)" for t
    by (simp add: stored_def map_of_map)
  have ix: "map_of (index loaded) t = map_of (index idx) t" for t
    by (cases "map_of (index idx) t") (simp_all add: loaded_def map_of_map st)
  have df: "map_of (doc_freq loaded) t = map_option (\<lambda>ids. int (length ids)) (map_of stored t)" for t
    by (simp add: loaded_def map_of_map)
  have df': "map_of (doc_freq loaded) t = map_option (\<lambda>s. int (fcard s)) (map_of (index idx) t)" for t
    by (cases "map_of (index idx) t") (simp_all add: df st length_sorted_list_of_fset)
  have "map_of (index loaded) = map_of (index idx)" using ix by (rule ext)
  with s l df df' show ?thesis by blast
qed

subsection \<open>Plain dictionaries after loading\<close>

text \<open>
  Claim C10. \<open>load_index\<close> leaves a plain dictionary; on a plain dictionary
  \<open>add_document\<close> raises \<open>KeyError\<close> as soon as one of the tokens is not
  already a term of the index, and in particular so after \<open>load_index\<close>; on a
  \<open>defaultdict\<close>, which is what the constructor creates and \<open>build_index\<close>
  keeps, \<open>add_document\<close> always completes.
\<close>

theorem add_document_after_load_index:
  "(load_index start filename fs = Inr loaded \<longrightarrow> \<not> index_is_defaultdict loaded)
   \<and> (\<not> index_is_defaultdict idx \<and> \<not> set toks \<subseteq> fst ` set (index idx)
        \<longrightarrow> add_document idx d toks = Inl KeyError)
   \<and> (load_index start filename fs = Inr loaded \<and> \<not> set toks \<subseteq> fst ` set (index loaded)
        \<longrightarrow> add_document loaded d toks = Inl KeyError)
   \<and> (index_is_defaultdict idx \<longrightarrow> (\<exists>added. add_document idx d toks = Inr added))
   \<and> index_is_defaultdict new_index
   \<and> (build_index idx docs = Inr built \<longrightarrow> index_is_defaultdict built = index_is_defaultdict idx)"
proof -
  have ld: "\<not> index_is_defaultdict loaded" if "load_index start filename fs = Inr loaded"
    using that by (auto simp: load_index_def split: option.splits)
  have err: "add_document i d toks = Inl KeyError"
    if "\<not> index_is_defaultdict i" "\<not> set toks \<subseteq> fst ` set (index i)" for i
    using that index_tokens_Inl[of d "unique_tokens toks" i KeyError]
    by (simp add: add_document_def distinct_unique_tokens)
  have ok: "\<exists>added. add_document idx d toks = Inr added" if "index_is_defaultdict idx"
  proof (cases "add_document idx d toks")
    case (Inl e)
    then show ?thesis using that index_tokens_Inl[of d "unique_tokens toks" idx e]
      by (simp add: add_document_def)
  next
    case (Inr a)
    then show ?thesis by blast
  qed
  have bl: "index_is_defaultdict i' = index_is_defaultdict i" if "build_loop ds i = Inr i'" for ds i i'
    using that
  proof (induction ds arbitrary: i)
    case Nil
    then show ?case by simp
  next
    case (Cons doc ds)
    from Cons.prems obtain i1 where
      s: "index_tokens (doc_id doc) (unique_tokens (tokens doc)) i = Inr i1"
      and r: "build_loop ds i1 = Inr i'"
      by (cases "index_tokens (doc_id doc) (unique_tokens (tokens doc)) i") auto
    from index_tokens_Inr_aux[OF s distinct_unique_tokens(1)]
    have "index_is_defaultdict i1 = index_is_defaultdict i" by blast
    with Cons.IH[OF r] show ?case by simp
  qed
  have b: "index_is_defaultdict built = index_is_defaultdict idx" if "build_index idx docs = Inr built"
    using bl[of docs "idx\<lparr>index := [], doc_freq := []\<rparr>" built] that by (simp add: build_index_def)
  show ?thesis using ld err ok b by (auto simp: new_index_def)
qed

theorem add_document_after_load_index_witness:
  "load_index new_index ''f'' [''f'' \<mapsto> [(''a'', [1])]]
     = Inr \<lparr>index = [(''a'', {|1|})], index_is_defaultdict = False, doc_freq = [(''a'', 1)]\<rparr>
   \<and> \<not> index_is_defaultdict
          \<lparr>index = [(''a'', {|1|})], index_is_defaultdict = False, doc_freq = [(''a'', 1)]\<rparr>
   \<and> \<not> set [''a'', ''b'']
          \<subseteq> fst ` set (index \<lparr>index = [(''a'', {|1|})], index_is_defaultdict = False,
                                doc_freq = [(''a'', 1)]\<rparr>)
   \<and> add_document \<lparr>index = [(''a'', {|1|})], index_is_defaultdict = False, doc_freq = [(''a'', 1)]\<rparr>
        2 [''a'', ''b''] = Inl KeyError
   \<and> index_is_defaultdict new_index
   \<and> (\<exists>added. add_document new_index 2 [''a'', ''b''] = Inr added)
   \<and> build_index new_index [\<lparr>doc_id = 1, tokens = [''a'']\<rparr>]
        = Inr \<lparr>index = [(''a'', {|1|})], index_is_defaultdict = True, doc_freq = [(''a'', 1)]\<rparr>
   \<and> index_is_defaultdict
        \<lparr>index = [(''a'', {|1|})], index_is_defaultdict = True, doc_freq = [(''a'', 1)]\<rparr>
       = index_is_defaultdict new_index"
proof -
  let ?L = "\<lparr>index = [(''a'', {|1|})], index_is_defaultdict = False, doc_freq = [(''a'', 1)]\<rparr>"
  have l: "load_index new_index ''f'' [''f'' \<mapsto> [(''a'', [1])]] = Inr ?L"
    by (simp add: load_index_def new_index_def)
  have m: "\<not> set [''a'', ''b''] \<subseteq> fst ` set (index ?L)" by simp
  have b: "build_index new_index [\<lparr>doc_id = 1, tokens = [''a'']\<rparr>]
        = Inr \<lparr>index = [(''a'', {|1|})], index_is_defaultdict = True, doc_freq = [(''a'', 1)]\<rparr>"
    by (simp add: build_index_def new_index_def unique_tokens_def index_getitem_def dict_get_def)
  have n: "index_is_defaultdict new_index" by (simp add: new_index_def)
  note T1 = add_document_after_load_index[where start=new_index and filename="''f''"
      and fs="[''f'' \<mapsto> [(''a'', [1])]]" and loaded="?L" and idx="?L" and toks="[''a'', ''b'']" and d=2]
  note T2 = add_document_after_load_index[where idx=new_index and toks="[''a'', ''b'']" and d=2
      and docs="[\<lparr>doc_id = 1, tokens = [''a'']\<rparr>]"
      and built="\<lparr>index = [(''a'', {|1|})], index_is_defaultdict = True, doc_freq = [(''a'', 1)]\<rparr>"]
  from T1 l m have 1: "\<not> index_is_defaultdict ?L" "add_document ?L 2 [''a'', ''b''] = Inl KeyError"
    by blast+
  from T2 n b have 2: "\<exists>added. add_document new_index 2 [''a'', ''b''] = Inr added"
    "index_is_defaultdict
        \<lparr>index = [(''a'', {|1|})], index_is_defaultdict = True, doc_freq = [(''a'', 1)]\<rparr>
       = index_is_defaultdict new_index" by blast+
  from l m b n 1 2 show ?thesis by blast
qed


subsection \<open>Parallel construction\<close>

lemma fold_snoc_map: "fold (\<lambda>x acc. acc @ [f x]) xs acc = acc @ map f xs"
  by (induction xs arbitrary: acc) simp_all

lemma fold_append_concat: "fold (\<lambda>x acc. acc @ x) xss acc = acc @ concat xss"
  by (induction xss arbitrary: acc) simp_all

lemma concat_make_batches:
  "0 < batch_size \<Longrightarrow> concat (make_batches batch_size documents i) = drop i documents"
proof (induction batch_size documents i rule: make_batches.induct)
  case (1 batch_size documents i)
  show ?case
  proof (cases "length documents \<le> i")
    case True
    then show ?thesis by (simp add: make_batches.simps[of batch_size documents i])
  next
    case False
    with "1.prems" have "concat (make_batches batch_size documents (i + batch_size))
        = drop (i + batch_size) documents"
      using "1.IH" by simp
    moreover have "take batch_size (drop i documents) @ drop (i + batch_size) documents
        = drop i documents"
      by (metis add.commute append_take_drop_id drop_drop)
    ultimately show ?thesis using False "1.prems"
      by (simp add: make_batches.simps[of batch_size documents i])
  qed
qed

lemma build_loop_defaultdict:
  "index_is_defaultdict idx \<Longrightarrow> \<exists>idx'. build_loop docs idx = Inr idx'"
proof (induction docs arbitrary: idx)
  case Nil
  then show ?case by simp
next
  case (Cons doc docs)
  let ?r = "index_tokens (doc_id doc) (unique_tokens (tokens doc)) idx"
  show ?case
  proof (cases ?r)
    case (Inl e)
    then show ?thesis using Cons.prems index_tokens_Inl[of "doc_id doc" _ idx e] by simp
  next
    case (Inr idx1)
    from index_tokens_Inr_aux[OF Inr distinct_unique_tokens(1)] Cons.prems
    have "index_is_defaultdict idx1" by blast
    from Cons.IH[OF this] Inr show ?thesis by simp
  qed
qed

text \<open>
  Claim C9. For every positive worker count the parallel builder returns
  the index that the sequential path (\<open>preprocess_corpus\<close> followed by
  \<open>build_index\<close> on a fresh index) returns, together with the same list of
  pre-processed documents; so the results for one and for four workers are
  equal. \<open>executor.map\<close> is modelled by its contract: results come back in
  the order of the submitted batches.
\<close>

theorem build_index_parallel_deterministic:
  assumes "0 < num_workers"
  shows "\<exists>idx. build_index new_index (preprocess_corpus (preprocess_text language) documents) = Inr idx
           \<and> build_index_parallel preprocess_text num_workers documents language
               = Inr (idx, preprocess_corpus (preprocess_text language) documents)
           \<and> build_index_parallel preprocess_text 1 documents language
               = build_index_parallel preprocess_text 4 documents language"
proof -
  let ?f = "\<lambda>doc. \<lparr>doc_id = raw_id doc, tokens = preprocess_text language (raw_text doc)\<rparr>"
  have seq: "preprocess_corpus (preprocess_text language) documents = map ?f documents"
    by (simp add: preprocess_corpus_def fold_snoc_map)
  have batch: "process_document_batch preprocess_text (batch, language) = map ?f batch" for batch
    by (simp add: process_document_batch_def fold_snoc_map)
  have docs: "fold (\<lambda>batch_results processed_docs. processed_docs @ batch_results)
            (map (\<lambda>batch. process_document_batch preprocess_text (batch, language))
               (make_batches (nat (max 1 (int (length documents) div w))) documents 0)) []
          = map ?f documents" for w :: int
  proof -
    have "0 < nat (max 1 (int (length documents) div w))" by simp
    from concat_make_batches[OF this, of documents 0] show ?thesis
      by (simp add: fold_append_concat batch map_concat[symmetric])
  qed
  have "index_is_defaultdict (new_index\<lparr>index := [], doc_freq := []\<rparr>)"
    by (simp add: new_index_def)
  from build_loop_defaultdict[OF this, of "map ?f documents"] obtain idx where
    b: "build_index new_index (map ?f documents) = Inr idx"
    by (auto simp: build_index_def)
  have par: "build_index_parallel preprocess_text w documents language = Inr (idx, map ?f documents)"
    if "0 < w" for w
    using that by (simp add: build_index_parallel_def Let_def docs b del: max.bounded_iff)
  show ?thesis using par[OF assms] par[of 1] par[of 4] b by (simp add: seq)
qed

theorem build_index_parallel_deterministic_witness:
  "(0::int) < 4
   \<and> (\<exists>idx. build_index new_index
               (preprocess_corpus ((\<lambda>language text. [text]) ''french'')
                  [\<lparr>raw_id = 1, raw_text = ''a''\<rparr>, \<lparr>raw_id = 2, raw_text = ''b''\<rparr>]) = Inr idx
        \<and> build_index_parallel (\<lambda>language text. [text]) 4
             [\<lparr>raw_id = 1, raw_text = ''a''\<rparr>, \<lparr>raw_id = 2, raw_text = ''b''\<rparr>] ''french''
            = Inr (idx, preprocess_corpus ((\<lambda>language text. [text]) ''french'')
                          [\<lparr>raw_id = 1, raw_text = ''a''\<rparr>, \<lparr>raw_id = 2, raw_text = ''b''\<rparr>]))"
proof -
  have h: "(0::int) < 4" by simp
  from build_index_parallel_deterministic[OF h, of "\<lambda>language text. [text]" "''french''"
      "[\<lparr>raw_id = 1, raw_text = ''a''\<rparr>, \<lparr>raw_id = 2, raw_text = ''b''\<rparr>]"]
  show ?thesis using h by blast
qed

subsection \<open>Language model\<close>













subsection \<open>BM25\<close>

text \<open>The fraction of the score grows with the term frequency.\<close>

lemma bm25_fraction_mono:
  assumes "0 < (x::real)" "x \<le> y" "0 \<le> K" "0 \<le> c"
  shows "x * K / (x + c) \<le> y * K / (y + c)"
proof -
  have "c * x \<le> c * y" using assms(2,4) by (rule mult_left_mono)
  then have "x * (y + c) \<le> y * (x + c)" by (simp add: algebra_simps)
  then have "x / (x + c) \<le> y / (y + c)"
    using assms by (simp add: frac_le_eq divide_le_0_iff field_simps)
  then have "K * (x / (x + c)) \<le> K * (y / (y + c))" using assms(3) by (rule mult_left_mono)
  then show ?thesis by (simp add: mult.commute)
qed

text \<open>
  Rounding. A rounding within \<open>u\<close> keeps a non-negative number between
  \<open>(1 - u) x\<close> and \<open>(1 + u) x\<close>, keeps signs, and is exact when \<open>u = 0\<close>.
\<close>

lemma rounds_within_lower:
  assumes "rounds_within u fl" "0 \<le> x"
  shows "(1 - u) * x \<le> fl x"
proof -
  from assms(1) have "\<bar>fl x - x\<bar> \<le> u * \<bar>x\<bar>" by (simp add: rounds_within_def)
  then have "x - fl x \<le> u * x" using assms(2) by simp
  then show ?thesis by (simp add: algebra_simps)
qed

lemma rounds_within_upper:
  assumes "rounds_within u fl" "0 \<le> x"
  shows "fl x \<le> (1 + u) * x"
proof -
  from assms(1) have "\<bar>fl x - x\<bar> \<le> u * \<bar>x\<bar>" by (simp add: rounds_within_def)
  then have "fl x - x \<le> u * x" using assms(2) by simp
  then show ?thesis by (simp add: algebra_simps)
qed

lemma rounds_within_nonneg:
  assumes "rounds_within u fl" "0 \<le> x"
  shows "0 \<le> fl x"
proof -
  have "0 \<le> 1 - u" using assms(1) by (simp add: rounds_within_def)
  then have "0 \<le> (1 - u) * x" using assms(2) by (rule mult_nonneg_nonneg)
  with rounds_within_lower[OF assms] show ?thesis by linarith
qed

lemma rounds_within_pos:
  assumes "rounds_within u fl" "0 < x"
  shows "0 < fl x"
proof -
  have "0 < 1 - u" using assms(1) by (simp add: rounds_within_def)
  then have "0 < (1 - u) * x" using assms(2) by (rule mult_pos_pos)
  moreover have "(1 - u) * x \<le> fl x" by (rule rounds_within_lower) (use assms in simp_all)
  ultimately show ?thesis by linarith
qed

lemma rounds_within_exact: "0 \<le> u \<Longrightarrow> u < 1 \<Longrightarrow> rounds_within u (fl_round exact_arith)"
  by (simp add: rounds_within_def exact_arith_def)

lemma rounds_within_zero: "rounds_within 0 fl \<Longrightarrow> fl x = x"
  by (simp add: rounds_within_def)

text \<open>
  Rounding to the nearest number with \<open>p + 1\<close> significant bits is a rounding
  within \<open>1 / 2 ^ (p + 1)\<close>; it is monotone on the positive numbers and
  leaves 1 unchanged.
\<close>

lemma round_to_nearest_rounds_within:
  "rounds_within (1 / 2 ^ Suc p) (round_to_nearest p)"
proof -
  have "\<bar>round_to_nearest p x - x\<bar> \<le> 1 / 2 ^ Suc p * \<bar>x\<bar>" for x
  proof (cases "x = 0")
    case True
    then show ?thesis by (simp add: round_to_nearest_def)
  next
    case False
    define e where "e = \<lfloor>log 2 \<bar>x\<bar>\<rfloor>"
    define g where "g = 2 powr real_of_int (e - int p)"
    have g: "0 < g" by (simp add: g_def)
    have "2 powr real_of_int e \<le> 2 powr log 2 \<bar>x\<bar>"
      unfolding e_def by (subst powr_le_cancel_iff) simp_all
    then have le: "2 powr real_of_int e \<le> \<bar>x\<bar>" using False by simp
    have ge: "g = 2 powr real_of_int e / 2 ^ p"
      by (simp add: g_def powr_diff powr_realpow)
    have "\<bar>real_of_int (round (x / g)) - x / g\<bar> \<le> 1 / 2" by (rule of_int_round_abs_le)
    then have "\<bar>real_of_int (round (x / g)) - x / g\<bar> * g \<le> 1 / 2 * g"
      using g by (intro mult_right_mono) simp_all
    moreover have "\<bar>real_of_int (round (x / g)) - x / g\<bar> * g
        = \<bar>real_of_int (round (x / g)) * g - x\<bar>"
    proof -
      have "\<bar>real_of_int (round (x / g)) - x / g\<bar> * g
          = \<bar>(real_of_int (round (x / g)) - x / g) * g\<bar>" using g by (simp add: abs_mult)
      also have "(real_of_int (round (x / g)) - x / g) * g = real_of_int (round (x / g)) * g - x"
        using g by (simp add: algebra_simps)
      finally show ?thesis .
    qed
    ultimately have "\<bar>real_of_int (round (x / g)) * g - x\<bar> \<le> 1 / 2 * g" by simp
    also have "\<dots> = 2 powr real_of_int e / 2 ^ Suc p" by (simp add: ge)
    also have "\<dots> \<le> \<bar>x\<bar> / 2 ^ Suc p" using le by (simp add: divide_right_mono)
    finally show ?thesis using False
      by (simp add: round_to_nearest_def Let_def g_def e_def)
  qed
  moreover have "1 / 2 ^ Suc p < (1::real)"
  proof -
    have "(1::real) < 2 ^ Suc p" by (rule one_less_power) simp_all
    then show ?thesis by simp
  qed
  ultimately show ?thesis by (simp add: rounds_within_def)
qed

lemma round_to_nearest_pos_bounds:
  assumes "0 < x"
  defines "e \<equiv> \<lfloor>log 2 x\<rfloor>"
  shows "2 powr real_of_int e \<le> round_to_nearest p x"
    and "round_to_nearest p x \<le> 2 powr real_of_int (e + 1)"
proof -
  define g where "g = 2 powr real_of_int (e - int p)"
  have g: "0 < g" by (simp add: g_def)
  have rt: "round_to_nearest p x = real_of_int (round (x / g)) * g"
    using assms(1) by (simp add: round_to_nearest_def Let_def g_def e_def)
  have "2 powr real_of_int e \<le> 2 powr log 2 x"
    unfolding e_def by (subst powr_le_cancel_iff) simp_all
  then have lo: "2 powr real_of_int e \<le> x" using assms(1) by simp
  have "log 2 x < real_of_int (e + 1)" unfolding e_def by linarith
  then have "2 powr log 2 x < 2 powr real_of_int (e + 1)"
    by (subst powr_less_cancel_iff) simp_all
  then have hi: "x < 2 powr real_of_int (e + 1)" using assms(1) by simp
  have ge: "2 powr real_of_int e = 2 ^ p * g"
    by (simp add: g_def powr_diff powr_realpow)
  have ge1: "2 powr real_of_int (e + 1) = 2 ^ Suc p * g"
    by (simp add: g_def powr_diff powr_add powr_realpow)
  have "2 ^ p * g \<le> x" using lo unfolding ge .
  then have "2 ^ p \<le> x / g" using g by (simp only: pos_le_divide_eq)
  then have "real_of_int (2 ^ p) \<le> x / g" by simp
  then have "round (real_of_int (2 ^ p)) \<le> round (x / g)" by (rule round_mono)
  then have "(2::int) ^ p \<le> round (x / g)" by (simp only: round_of_int)
  then have "real_of_int (2 ^ p) \<le> real_of_int (round (x / g))" by (simp only: of_int_le_iff)
  then have "real_of_int (2 ^ p) * g \<le> real_of_int (round (x / g)) * g"
    using g by (intro mult_right_mono) simp_all
  then show "2 powr real_of_int e \<le> round_to_nearest p x" unfolding rt ge by simp
  have "x \<le> 2 ^ Suc p * g" using hi unfolding ge1 by linarith
  then have "x / g \<le> 2 ^ Suc p" using g by (simp only: pos_divide_le_eq)
  then have "x / g \<le> real_of_int (2 ^ Suc p)" by simp
  then have "round (x / g) \<le> round (real_of_int (2 ^ Suc p))" by (rule round_mono)
  then have "round (x / g) \<le> (2::int) ^ Suc p" by (simp only: round_of_int)
  then have "real_of_int (round (x / g)) \<le> real_of_int (2 ^ Suc p)" by (simp only: of_int_le_iff)
  then have "real_of_int (round (x / g)) * g \<le> real_of_int (2 ^ Suc p) * g"
    using g by (intro mult_right_mono) simp_all
  then show "round_to_nearest p x \<le> 2 powr real_of_int (e + 1)" unfolding rt ge1 by simp
qed

lemma round_to_nearest_mono_pos:
  assumes "0 < x" "x \<le> y"
  shows "round_to_nearest p x \<le> round_to_nearest p y"
proof -
  have y: "0 < y" using assms by linarith
  define ex where "ex = \<lfloor>log 2 x\<rfloor>"
  define ey where "ey = \<lfloor>log 2 y\<rfloor>"
  have "log 2 x \<le> log 2 y" using assms by simp
  then have le: "ex \<le> ey" unfolding ex_def ey_def by (rule floor_mono)
  show ?thesis
  proof (cases "ex = ey")
    case True
    define g where "g = 2 powr real_of_int (ex - int p)"
    have g: "0 < g" by (simp add: g_def)
    have "x / g \<le> y / g" using assms(2) g by (simp add: divide_right_mono)
    then have "round (x / g) \<le> round (y / g)" by (rule round_mono)
    then have "real_of_int (round (x / g)) * g \<le> real_of_int (round (y / g)) * g"
      using g by (intro mult_right_mono) simp_all
    then show ?thesis using assms(1) y True
      by (simp add: round_to_nearest_def Let_def g_def ex_def ey_def)
  next
    case False
    then have "ex + 1 \<le> ey" using le by simp
    then have "2 powr real_of_int (ex + 1) \<le> 2 powr real_of_int ey" by simp
    with round_to_nearest_pos_bounds(2)[OF assms(1), of p]
      round_to_nearest_pos_bounds(1)[OF y, of p]
    show ?thesis unfolding ex_def ey_def by linarith
  qed
qed

lemma round_to_nearest_one: "round_to_nearest p 1 = 1"
proof -
  have "(1::real) / 2 powr (- real p) = real_of_int (2 ^ p)"
    by (simp add: powr_minus powr_realpow field_simps)
  then have "round ((1::real) / 2 powr (- real p)) = 2 ^ p" by (simp only: round_of_int)
  then show ?thesis
    by (simp add: round_to_nearest_def Let_def powr_minus powr_realpow)
qed

lemma rounding_arith_rounds_within: "rounds_within (1 / 2 ^ 53) (fl_round rounding_arith)"
  using round_to_nearest_rounds_within[of 52] by (simp add: rounding_arith_def)

lemma rounding_arith_log10_nonneg: "1 \<le> x \<Longrightarrow> 0 \<le> fl_log10 rounding_arith x"
  using rounds_within_nonneg[OF round_to_nearest_rounds_within[of 52], of "log 10 x"]
  by (simp add: rounding_arith_def)

text \<open>
  The computed score against the exact one. With \<open>x\<close> the term frequency,
  \<open>K\<close> the computed \<open>k1 + 1\<close>, \<open>c\<close> the computed length normalisation and
  \<open>i\<close> the inverse document frequency, the score is computed with five
  roundings: of \<open>x\<close>, of the numerator, of the denominator, of the quotient and
  of the product. It lies within \<open>(1 - u)\<^sup>4 / (1 + u)\<close> and
  \<open>(1 + u)\<^sup>4 / (1 - u)\<close> of the exact \<open>i x K / (x + c)\<close>.
\<close>

lemma bm25_rounded_score_bounds:
  fixes x K c i u :: real
  assumes R: "rounds_within u fl" and x: "0 < x" and K: "0 < K" and c: "0 \<le> c" and i: "0 \<le> i"
  shows "fl (fl x + c) \<noteq> 0"
    and "(1 - u) * fl (i * fl (fl (fl x * K) / fl (fl x + c)))
           \<le> (1 + u) ^ 4 * (i * (x * K / (x + c)))"
    and "(1 - u) ^ 4 * (i * (x * K / (x + c)))
           \<le> (1 + u) * fl (i * fl (fl (fl x * K) / fl (fl x + c)))"
proof -
  define a where "a = 1 - u"
  define A where "A = 1 + u"
  define t where "t = fl x"
  define n where "n = fl (t * K)"
  define d where "d = fl (t + c)"
  define q where "q = fl (n / d)"
  define s where "s = fl (i * q)"
  define r where "r = x * K / (x + c)"
  define p where "p = t * K / (t + c)"
  have a: "0 < a" "a \<le> 1" and A: "1 \<le> A" "0 < A"
    using R by (simp_all add: a_def A_def rounds_within_def)
  have lo: "a * y \<le> fl y" and up: "fl y \<le> A * y" and nn: "0 \<le> fl y" if "0 \<le> y" for y
    unfolding a_def A_def
    using rounds_within_lower[OF R that] rounds_within_upper[OF R that]
      rounds_within_nonneg[OF R that] by simp_all
  have t: "a * x \<le> t" "t \<le> A * x" "0 < t"
    using lo[of x] up[of x] rounds_within_pos[OF R x] x by (simp_all add: t_def)
  have tc: "0 < t + c" and xc: "0 < x + c" using t(3) x c by simp_all
  have tK: "0 \<le> t * K" using t(3) K by simp
  have r0: "0 \<le> r" using x K c by (simp add: r_def)
  have p0: "0 \<le> p" using t(3) K c by (simp add: p_def)
  have p_up: "p \<le> A * r"
  proof -
    have "t * x \<le> A * (t * x)" using A(1) t(3) x by simp
    moreover have "t * c \<le> (A * x) * c" using t(2) c by (rule mult_right_mono)
    ultimately have "t * (x + c) \<le> A * x * (t + c)" by (simp add: algebra_simps)
    then have "t * (x + c) * K \<le> A * x * (t + c) * K" using K by simp
    then have "t * K / (t + c) \<le> A * x * K / (x + c)"
      using tc xc by (simp add: field_simps)
    then show ?thesis by (simp add: p_def r_def)
  qed
  have p_lo: "a * r \<le> p"
  proof -
    have "a * (t * x) \<le> t * x" using a(2) t(3) x by simp
    moreover have "(a * x) * c \<le> t * c" using t(1) c by (rule mult_right_mono)
    ultimately have "a * x * (t + c) \<le> t * (x + c)" by (simp add: algebra_simps)
    then have "a * x * (t + c) * K \<le> t * (x + c) * K" using K by simp
    then have "a * x * K / (x + c) \<le> t * K / (t + c)"
      using tc xc by (simp add: field_simps)
    then show ?thesis by (simp add: p_def r_def)
  qed
  have n: "a * (t * K) \<le> n" "n \<le> A * (t * K)" "0 \<le> n"
    using lo[OF tK] up[OF tK] nn[OF tK] by (simp_all add: n_def)
  have d: "a * (t + c) \<le> d" "d \<le> A * (t + c)" "0 < d"
    using lo[of "t + c"] up[of "t + c"] rounds_within_pos[OF R tc] tc by (simp_all add: d_def)
  define m where "m = n / d"
  have m0: "0 \<le> m" using n(3) d(3) by (simp add: m_def)
  have m_up: "a * m \<le> A * p"
  proof -
    have "n / d \<le> (A * (t * K)) / (a * (t + c))"
      by (rule frac_le) (use n d a A tK tc in simp_all)
    also have "\<dots> = A * p / a" by (simp add: p_def)
    finally have "m \<le> A * p / a" by (simp only: m_def)
    then have "m * a \<le> A * p" using a(1) by (simp only: pos_le_divide_eq)
    then show ?thesis by (simp only: mult.commute)
  qed
  have m_lo: "a * p \<le> A * m"
  proof -
    have "(a * (t * K)) / (A * (t + c)) \<le> n / d"
      by (rule frac_le) (use n d a A tK tc in simp_all)
    moreover have "(a * (t * K)) / (A * (t + c)) = a * p / A" by (simp add: p_def)
    ultimately have "a * p / A \<le> m" by (simp only: m_def)
    then have "a * p \<le> m * A" using A(2) by (simp only: pos_divide_le_eq)
    then show ?thesis by (simp only: mult.commute)
  qed
  have q: "a * m \<le> q" "q \<le> A * m" "0 \<le> q"
    using lo[OF m0] up[OF m0] nn[OF m0] by (simp_all add: q_def m_def)
  have iq: "0 \<le> i * q" using i q(3) by simp
  have s: "a * (i * q) \<le> s" "s \<le> A * (i * q)"
    using lo[OF iq] up[OF iq] by (simp_all add: s_def)
  have a0: "0 \<le> a" and A0: "0 \<le> A" using a(1) A(2) by simp_all
  have "a * q \<le> a * (A * m)" using q(2) a0 by (rule mult_left_mono)
  also have "\<dots> = A * (a * m)" by (simp only: mult.left_commute)
  also have "\<dots> \<le> A * (A * p)" using m_up A0 by (rule mult_left_mono)
  also have "\<dots> \<le> A * (A * (A * r))" using p_up A0 by (intro mult_left_mono)
  finally have aq: "a * q \<le> A * (A * (A * r))" .
  have "a * s \<le> a * (A * (i * q))" using s(2) a0 by (rule mult_left_mono)
  also have "\<dots> = (A * i) * (a * q)" by (simp only: mult_ac)
  also have "\<dots> \<le> (A * i) * (A * (A * (A * r)))"
    using aq by (rule mult_left_mono) (use A0 i in simp)
  also have "\<dots> = A ^ 4 * (i * r)" by (simp only: power4_eq_xxxx mult_ac)
  finally have upper: "a * s \<le> A ^ 4 * (i * r)" .
  have "a * (a * (a * r)) \<le> a * (a * p)" using p_lo a0 by (intro mult_left_mono)
  also have "\<dots> \<le> a * (A * m)" using m_lo a0 by (rule mult_left_mono)
  also have "\<dots> = A * (a * m)" by (simp only: mult.left_commute)
  also have "\<dots> \<le> A * q" using q(1) A0 by (rule mult_left_mono)
  finally have Aq: "a * (a * (a * r)) \<le> A * q" .
  have "a ^ 4 * (i * r) = (a * i) * (a * (a * (a * r)))" by (simp only: power4_eq_xxxx mult_ac)
  also have "\<dots> \<le> (a * i) * (A * q)"
    using Aq by (rule mult_left_mono) (use a0 i in simp)
  also have "\<dots> = A * (a * (i * q))" by (simp only: mult_ac)
  also have "\<dots> \<le> A * s" using s(1) A0 by (rule mult_left_mono)
  finally have lower: "a ^ 4 * (i * r) \<le> A * s" .
  show "fl (fl x + c) \<noteq> 0" using d(3) by (simp add: d_def t_def)
  show "(1 - u) * fl (i * fl (fl (fl x * K) / fl (fl x + c)))
           \<le> (1 + u) ^ 4 * (i * (x * K / (x + c)))"
    using upper by (simp only: a_def A_def s_def q_def n_def d_def t_def r_def)
  show "(1 - u) ^ 4 * (i * (x * K / (x + c)))
           \<le> (1 + u) * fl (i * fl (fl (fl x * K) / fl (fl x + c)))"
    using lower by (simp only: a_def A_def s_def q_def n_def d_def t_def r_def)
qed

text \<open>Every count that the constructor stores is positive.\<close>

lemma nested_incr_positive:
  assumes "\<forall>d t. tf_entry_positive tf d t"
  shows "tf_entry_positive (nested_incr tf d' t') d t"
proof -
  define inner where "inner = dict_get tf d' []"
  have inv: "0 < c" if "map_of inner k = Some c" for k c
    using assms that by (auto simp: tf_entry_positive_def inner_def split: option.splits)
  have old: "0 \<le> dict_get inner t' 0"
    using inv[of t'] by (cases "map_of inner t'") (auto simp: dict_get_def)
  have same: "dict_get (nested_incr tf d' t') d' []
      = AList.update t' (dict_get inner t' 0 + 1) inner"
    by (simp add: nested_incr_def dict_get_def inner_def update_conv' Let_def)
  have other: "dict_get (nested_incr tf d' t') d [] = dict_get tf d []" if "d \<noteq> d'"
    using that by (simp add: nested_incr_def dict_get_def update_conv' Let_def)
  show ?thesis
  proof (cases "d = d'")
    case True
    have "0 < c" if "map_of (AList.update t' (dict_get inner t' 0 + 1) inner) t = Some c" for c
      using that old inv[of t c] by (auto simp: update_conv' split: if_splits)
    then show ?thesis unfolding True tf_entry_positive_def same
      by (auto split: option.splits)
  next
    case False
    then show ?thesis using assms by (simp add: other tf_entry_positive_def)
  qed
qed

lemma bm_count_tokens_positive:
  "\<forall>d t. tf_entry_positive (bm_tf m) d t \<Longrightarrow>
   tf_entry_positive (bm_tf (bm_count_tokens d' toks m)) d t"
proof (induction toks arbitrary: m)
  case Nil
  then show ?case by simp
next
  case (Cons token rest)
  have "\<forall>d t. tf_entry_positive (nested_incr (bm_tf m) d' token) d t"
    using nested_incr_positive[OF Cons.prems] by blast
  then show ?case by (auto simp: Let_def intro!: Cons.IH)
qed

lemma bm_count_documents_positive:
  "\<forall>d t. tf_entry_positive (bm_tf m) d t \<Longrightarrow>
   tf_entry_positive (bm_tf (bm_count_documents docs m)) d t"
proof (induction docs arbitrary: m)
  case Nil
  then show ?case by simp
next
  case (Cons doc docs)
  have "\<forall>d t. tf_entry_positive
           (bm_tf (bm_count_tokens (doc_id doc) (tokens doc)
              (m\<lparr>bm_doc_lengths :=
                   AList.update (doc_id doc) (int (length (tokens doc))) (bm_doc_lengths m)\<rparr>))) d t"
    using Cons.prems by (auto intro!: bm_count_tokens_positive)
  then show ?case by (simp add: Cons.IH)
qed

lemma modele_probabiliste_init_tf_positive:
  "tf_entry_positive (bm_tf (modele_probabiliste_init fm index_inverse documents k1 b)) d t"
proof -
  have "tf_entry_positive (bm_tf (bm_count_documents documents
          \<lparr>bm_index = index_inverse, bm_documents = documents,
           bm_num_docs = int (length documents), bm_k1 = k1, bm_b = b,
           bm_tf = [], bm_df = [], bm_doc_lengths = [], bm_avg_doc_length = 0\<rparr>)) d t"
    by (rule bm_count_documents_positive) (simp add: tf_entry_positive_def dict_get_def)
  then show ?thesis by (simp add: modele_probabiliste_init_def Let_def)
qed

lemma bm_compute_idf_cong:
  assumes "bm_num_docs m2 = bm_num_docs m1" "dict_get (bm_df m2) t 0 = dict_get (bm_df m1) t 0"
  shows "bm_compute_idf fm m2 t = bm_compute_idf fm m1 t"
  unfolding bm_compute_idf_def assms ..

text \<open>
  A document frequency of at most half the number of documents gives a
  non-negative inverse document frequency, in every arithmetic whose rounding
  is monotone on the positive numbers and leaves 1 unchanged and whose
  logarithm is non-negative from 1 on: in exact arithmetic, and when every
  operation rounds to the nearest number of 53 significant bits.
\<close>

lemma bm_idf_nonneg:
  assumes R: "rounds_within u (fl_round fm)"
    and mono: "\<forall>x y. 0 < x \<longrightarrow> x \<le> y \<longrightarrow> fl_round fm x \<le> fl_round fm y"
    and one: "fl_round fm 1 = 1"
    and lg: "\<forall>x. 1 \<le> x \<longrightarrow> 0 \<le> fl_log10 fm x"
    and df: "0 \<le> dict_get (bm_df m) t 0" "2 * dict_get (bm_df m) t 0 \<le> bm_num_docs m"
  shows "\<exists>idf. bm_compute_idf fm m t = Inr idf \<and> 0 \<le> idf"
proof (cases "dict_get (bm_df m) t 0 = 0")
  case True
  then show ?thesis by (simp add: bm_compute_idf_def)
next
  case False
  define fl where "fl = fl_round fm"
  define k where "k = dict_get (bm_df m) t 0"
  define N where "N = bm_num_docs m"
  define dividend where "dividend = fl (fl (real_of_int (N - k)) + 0.5)"
  define divisor where "divisor = fl (fl (real_of_int k) + 0.5)"
  have k: "0 < k" "k \<le> N - k" using df False by (simp_all add: k_def N_def)
  have m: "fl x \<le> fl y" if "0 < x" "x \<le> y" for x y using mono that by (simp add: fl_def)
  have R': "rounds_within u fl" using R by (simp add: fl_def)
  have "0 \<le> fl (real_of_int k)" by (rule rounds_within_nonneg[OF R']) (use k in simp)
  then have s: "0 < fl (real_of_int k) + 0.5" by simp
  then have pos: "0 < divisor" unfolding divisor_def by (rule rounds_within_pos[OF R'])
  have "fl (real_of_int k) \<le> fl (real_of_int (N - k))" by (rule m) (use k in simp_all)
  then have "fl (real_of_int k) + 0.5 \<le> fl (real_of_int (N - k)) + 0.5" by simp
  with s have le: "divisor \<le> dividend" unfolding divisor_def dividend_def by (rule m)
  have "1 \<le> dividend / divisor" using pos le by simp
  then have "fl 1 \<le> fl (dividend / divisor)" by (intro m) simp_all
  then have ge: "1 \<le> fl (dividend / divisor)" using one by (simp add: fl_def)
  then have "0 \<le> fl_log10 fm (fl (dividend / divisor))" using lg by blast
  moreover have "bm_compute_idf fm m t = Inr (fl_log10 fm (fl (dividend / divisor)))"
  proof -
    have "0 < fl (dividend / divisor)" using ge by linarith
    moreover have "divisor \<noteq> 0" using pos by simp
    ultimately show ?thesis using False
      unfolding bm_compute_idf_def Let_def k_def[symmetric] N_def[symmetric] fl_def[symmetric]
        dividend_def[symmetric] divisor_def[symmetric]
      by simp
  qed
  ultimately show ?thesis by simp
qed

lemma bm_idf_nonneg_exact_arith:
  assumes "0 \<le> dict_get (bm_df m) t 0" "2 * dict_get (bm_df m) t 0 \<le> bm_num_docs m"
  shows "\<exists>idf. bm_compute_idf exact_arith m t = Inr idf \<and> 0 \<le> idf"
  by (rule bm_idf_nonneg[OF rounds_within_exact[of 0] _ _ _ assms])
    (simp_all add: exact_arith_def)

lemma bm_idf_nonneg_rounding_arith:
  assumes "0 \<le> dict_get (bm_df m) t 0" "2 * dict_get (bm_df m) t 0 \<le> bm_num_docs m"
  shows "\<exists>idf. bm_compute_idf rounding_arith m t = Inr idf \<and> 0 \<le> idf"
proof (rule bm_idf_nonneg[OF rounding_arith_rounds_within _ _ _ assms])
  show "\<forall>x y. 0 < x \<longrightarrow> x \<le> y \<longrightarrow> fl_round rounding_arith x \<le> fl_round rounding_arith y"
    by (simp add: rounding_arith_def round_to_nearest_mono_pos)
  show "fl_round rounding_arith 1 = 1"
    by (simp add: rounding_arith_def round_to_nearest_one)
  show "\<forall>x. 1 \<le> x \<longrightarrow> 0 \<le> fl_log10 rounding_arith x"
    by (simp add: rounding_arith_log10_nonneg)
qed

text \<open>
  Claim C3, as the code has it. Take an arithmetic in which every rounding
  has a relative error of at most \<open>u < 1\<close>, and two model states that agree
  on \<open>k1\<close>, \<open>b\<close>, the number of documents, the average document length, the
  length of document \<open>d\<close> and the document frequency of term \<open>t\<close>, with
  \<open>k1 \<ge> 0\<close>, \<open>0 \<le> b \<le> 1\<close>, a computed inverse document frequency of \<open>t\<close>
  that is not negative, and positive stored counts of \<open>t\<close> in \<open>d\<close>. If the
  term frequency of \<open>t\<close> in \<open>d\<close> is not smaller in the second state, then
  both scores are computed without error and the second is not smaller up to
  rounding: \<open>s1 (1 - u)\<^sup>5 \<le> s2 (1 + u)\<^sup>5\<close>. In exact arithmetic, \<open>u = 0\<close>,
  this is \<open>s1 \<le> s2\<close>.

  The conditions on the states hold of the code: every count that the
  constructor stores is positive (\<open>modele_probabiliste_init_tf_positive\<close>),
  and the computed inverse document frequency is not negative when the
  document frequency is at most half the number of documents
  (\<open>bm_idf_nonneg\<close>).
\<close>

theorem bm25_score_monotone_in_tf:
  assumes R: "rounds_within u (fl_round fm)"
    and k1: "bm_k1 m2 = bm_k1 m1" and b: "bm_b m2 = bm_b m1"
    and N: "bm_num_docs m2 = bm_num_docs m1"
    and avg: "bm_avg_doc_length m2 = bm_avg_doc_length m1"
    and df: "dict_get (bm_df m2) t 0 = dict_get (bm_df m1) t 0"
    and dl1: "map_of (bm_doc_lengths m1) d = Some dl"
    and dl2: "map_of (bm_doc_lengths m2) d = Some dl" and dl: "0 \<le> dl"
    and params: "0 \<le> bm_k1 m1" "0 \<le> bm_b m1" "bm_b m1 \<le> 1"
    and idf: "bm_compute_idf fm m1 t = Inr i" "0 \<le> i"
    and pos: "tf_entry_positive (bm_tf m1) d t" "tf_entry_positive (bm_tf m2) d t"
    and tf: "nested_get (bm_tf m1) d t \<le> nested_get (bm_tf m2) d t"
  shows "\<exists>s1 s2. bm_compute_bm25_score fm m1 d t = Inr s1
           \<and> bm_compute_bm25_score fm m2 d t = Inr s2
           \<and> s1 * (1 - u) ^ 5 \<le> s2 * (1 + u) ^ 5"
proof -
  define fl where "fl = fl_round fm"
  have R': "rounds_within u fl" using R by (simp add: fl_def)
  have a: "0 < 1 - u" "0 \<le> 1 - u" and A: "0 < 1 + u" "0 \<le> 1 + u"
    using R by (simp_all add: rounds_within_def)
  have i2: "bm_compute_idf fm m2 t = Inr i"
    using bm_compute_idf_cong[OF N df] idf(1) by simp
  define K where "K = fl (bm_k1 m1 + 1)"
  define c where "c = fl (bm_k1 m1 * fl (fl (1 - bm_b m1)
                    + fl (bm_b m1 * fl (fl (real_of_int dl) / max (bm_avg_doc_length m1) 1))))"
  define r where "r = (\<lambda>x. i * (real_of_int x * K / (real_of_int x + c)))"
  define sc where "sc = (\<lambda>x. fl (i * fl (fl (fl (real_of_int x) * K) / fl (fl (real_of_int x) + c))))"
  have nn: "0 \<le> fl y" if "0 \<le> y" for y using rounds_within_nonneg[OF R' that] .
  have K: "0 < K" unfolding K_def by (rule rounds_within_pos[OF R']) (use params(1) in simp)
  have "0 \<le> fl (real_of_int dl)" by (rule nn) (use dl in simp)
  then have "0 \<le> fl (real_of_int dl) / max (bm_avg_doc_length m1) 1" by simp
  then have "0 \<le> fl (fl (real_of_int dl) / max (bm_avg_doc_length m1) 1)" by (rule nn)
  then have "0 \<le> bm_b m1 * fl (fl (real_of_int dl) / max (bm_avg_doc_length m1) 1)"
    using params(2) by simp
  then have "0 \<le> fl (bm_b m1 * fl (fl (real_of_int dl) / max (bm_avg_doc_length m1) 1))"
    by (rule nn)
  moreover have "0 \<le> fl (1 - bm_b m1)" by (rule nn) (use params(3) in simp)
  ultimately have "0 \<le> fl (1 - bm_b m1)
      + fl (bm_b m1 * fl (fl (real_of_int dl) / max (bm_avg_doc_length m1) 1))" by simp
  then have "0 \<le> fl (fl (1 - bm_b m1)
      + fl (bm_b m1 * fl (fl (real_of_int dl) / max (bm_avg_doc_length m1) 1)))" by (rule nn)
  then have "0 \<le> bm_k1 m1 * fl (fl (1 - bm_b m1)
      + fl (bm_b m1 * fl (fl (real_of_int dl) / max (bm_avg_doc_length m1) 1)))"
    using params(1) by simp
  then have c: "0 \<le> c" unfolding c_def by (rule nn)
  have bounds: "fl (fl (real_of_int x) + c) \<noteq> 0"
      "(1 - u) * sc x \<le> (1 + u) ^ 4 * r x" "(1 - u) ^ 4 * r x \<le> (1 + u) * sc x"
    if "0 < x" for x
    unfolding sc_def r_def
    using bm25_rounded_score_bounds[OF R' _ K c idf(2), of "real_of_int x"] that by simp_all
  have score: "bm_compute_bm25_score fm m d t = Inr (sc x)"
    if "map_of (dict_get (bm_tf m) d []) t = Some x" "0 < x" "bm_compute_idf fm m t = Inr i"
       "map_of (bm_doc_lengths m) d = Some dl" "bm_k1 m = bm_k1 m1" "bm_b m = bm_b m1"
       "bm_avg_doc_length m = bm_avg_doc_length m1" for m x
    using that bounds(1)[OF that(2)]
    by (simp add: bm_compute_bm25_score_def Let_def sc_def c_def K_def fl_def)
  have absent: "bm_compute_bm25_score fm m d t = Inr 0"
    if "map_of (dict_get (bm_tf m) d []) t = None" for m
    using that by (simp add: bm_compute_bm25_score_def)
  have r0: "0 \<le> r x" if "0 < x" for x
    unfolding r_def using that K c idf(2) by simp
  show ?thesis
  proof (cases "map_of (dict_get (bm_tf m1) d []) t")
    case None
    note n1 = this
    show ?thesis
    proof (cases "map_of (dict_get (bm_tf m2) d []) t")
      case None
      with n1 show ?thesis by (simp add: absent)
    next
      case (Some y)
      then have y: "0 < y" using pos(2) by (simp add: tf_entry_positive_def)
      have "0 \<le> (1 - u) ^ 4 * r y" using a(2) r0[OF y] by simp
      also have "\<dots> \<le> (1 + u) * sc y" by (rule bounds(3)[OF y])
      finally have "0 \<le> sc y" using A(1) by (simp add: zero_le_mult_iff)
      then have "0 \<le> sc y * (1 + u) ^ 5" using A(2) by simp
      then show ?thesis
        using absent[OF n1] score[OF Some y i2 dl2 k1 b avg] by simp
    qed
  next
    case (Some x)
    then have x: "0 < x" using pos(1) by (simp add: tf_entry_positive_def)
    have tx: "nested_get (bm_tf m1) d t = x" using Some by (simp add: nested_get_def dict_get_def)
    obtain y where y: "map_of (dict_get (bm_tf m2) d []) t = Some y"
    proof (cases "map_of (dict_get (bm_tf m2) d []) t")
      case None
      then have "nested_get (bm_tf m2) d t = 0" by (simp add: nested_get_def dict_get_def)
      with tf tx x show ?thesis by simp
    next
      case (Some y)
      then show ?thesis by (rule that)
    qed
    have ty: "nested_get (bm_tf m2) d t = y" using y by (simp add: nested_get_def dict_get_def)
    have xy: "x \<le> y" using tf tx ty by simp
    then have ypos: "0 < y" using x by simp
    have "real_of_int x * K / (real_of_int x + c) \<le> real_of_int y * K / (real_of_int y + c)"
      by (rule bm25_fraction_mono) (use x xy K c in simp_all)
    then have mono: "r x \<le> r y" unfolding r_def using idf(2) by (rule mult_left_mono)
    have a4: "0 \<le> (1 - u) ^ 4" and A4: "0 \<le> (1 + u) ^ 4" using a(2) A(2) by simp_all
    have "sc x * (1 - u) ^ 5 = (1 - u) ^ 4 * ((1 - u) * sc x)"
      by (simp add: power4_eq_xxxx power_numeral_odd mult_ac)
    also have "\<dots> \<le> (1 - u) ^ 4 * ((1 + u) ^ 4 * r x)"
      using bounds(2)[OF x] a4 by (rule mult_left_mono)
    also have "\<dots> \<le> (1 - u) ^ 4 * ((1 + u) ^ 4 * r y)"
      using mono a4 A4 by (intro mult_left_mono)
    also have "\<dots> = (1 + u) ^ 4 * ((1 - u) ^ 4 * r y)" by (simp only: mult.left_commute)
    also have "\<dots> \<le> (1 + u) ^ 4 * ((1 + u) * sc y)"
      using bounds(3)[OF ypos] A4 by (rule mult_left_mono)
    also have "\<dots> = sc y * (1 + u) ^ 5"
      by (simp add: power4_eq_xxxx power_numeral_odd mult_ac)
    finally have "sc x * (1 - u) ^ 5 \<le> sc y * (1 + u) ^ 5" .
    then show ?thesis
      using score[OF Some x idf(1) dl1 refl refl refl] score[OF y ypos i2 dl2 k1 b avg] by simp
  qed
qed

text \<open>
  Two corpora of three documents that differ in the first, \<open>[a, b]\<close>
  against \<open>[a, a]\<close>: the score of \<open>a\<close> in document 1 does not fall in
  exact arithmetic, and it falls by no more than the rounding bound when
  every operation rounds to 53 significant bits.
\<close>

theorem bm25_score_monotone_in_tf_witness:
  "rounds_within 0 (fl_round exact_arith)
   \<and> bm_k1 (modele_probabiliste_init exact_arith []
             [\<lparr>doc_id = 1, tokens = [''a'', ''a'']\<rparr>, \<lparr>doc_id = 2, tokens = [''c'', ''c'']\<rparr>,
              \<lparr>doc_id = 3, tokens = [''c'', ''c'']\<rparr>] (3 / 2) (3 / 4))
     = bm_k1 (modele_probabiliste_init exact_arith []
             [\<lparr>doc_id = 1, tokens = [''a'', ''b'']\<rparr>, \<lparr>doc_id = 2, tokens = [''c'', ''c'']\<rparr>,
              \<lparr>doc_id = 3, tokens = [''c'', ''c'']\<rparr>] (3 / 2) (3 / 4))
   \<and> bm_compute_idf exact_arith (modele_probabiliste_init exact_arith []
             [\<lparr>doc_id = 1, tokens = [''a'', ''b'']\<rparr>, \<lparr>doc_id = 2, tokens = [''c'', ''c'']\<rparr>,
              \<lparr>doc_id = 3, tokens = [''c'', ''c'']\<rparr>] (3 / 2) (3 / 4)) ''a''
     = Inr (log 10 (5 / 3))
   \<and> 0 \<le> log 10 (5 / 3 :: real)
   \<and> nested_get (bm_tf (modele_probabiliste_init exact_arith []
             [\<lparr>doc_id = 1, tokens = [''a'', ''b'']\<rparr>, \<lparr>doc_id = 2, tokens = [''c'', ''c'']\<rparr>,
              \<lparr>doc_id = 3, tokens = [''c'', ''c'']\<rparr>] (3 / 2) (3 / 4))) 1 ''a'' = 1
   \<and> nested_get (bm_tf (modele_probabiliste_init exact_arith []
             [\<lparr>doc_id = 1, tokens = [''a'', ''a'']\<rparr>, \<lparr>doc_id = 2, tokens = [''c'', ''c'']\<rparr>,
              \<lparr>doc_id = 3, tokens = [''c'', ''c'']\<rparr>] (3 / 2) (3 / 4))) 1 ''a'' = 2
   \<and> (\<exists>s1 s2.
         bm_compute_bm25_score exact_arith (modele_probabiliste_init exact_arith []
             [\<lparr>doc_id = 1, tokens = [''a'', ''b'']\<rparr>, \<lparr>doc_id = 2, tokens = [''c'', ''c'']\<rparr>,
              \<lparr>doc_id = 3, tokens = [''c'', ''c'']\<rparr>] (3 / 2) (3 / 4)) 1 ''a'' = Inr s1
       \<and> bm_compute_bm25_score exact_arith (modele_probabiliste_init exact_arith []
             [\<lparr>doc_id = 1, tokens = [''a'', ''a'']\<rparr>, \<lparr>doc_id = 2, tokens = [''c'', ''c'']\<rparr>,
              \<lparr>doc_id = 3, tokens = [''c'', ''c'']\<rparr>] (3 / 2) (3 / 4)) 1 ''a'' = Inr s2
       \<and> s1 \<le> s2)
   \<and> rounds_within (1 / 2 ^ 53) (fl_round rounding_arith)
   \<and> (\<exists>i. bm_compute_idf rounding_arith (modele_probabiliste_init rounding_arith []
             [\<lparr>doc_id = 1, tokens = [''a'', ''b'']\<rparr>, \<lparr>doc_id = 2, tokens = [''c'', ''c'']\<rparr>,
              \<lparr>doc_id = 3, tokens = [''c'', ''c'']\<rparr>] (3 / 2) (3 / 4)) ''a''
              = Inr i \<and> 0 \<le> i)
   \<and> (\<exists>s1 s2.
         bm_compute_bm25_score rounding_arith (modele_probabiliste_init rounding_arith []
             [\<lparr>doc_id = 1, tokens = [''a'', ''b'']\<rparr>, \<lparr>doc_id = 2, tokens = [''c'', ''c'']\<rparr>,
              \<lparr>doc_id = 3, tokens = [''c'', ''c'']\<rparr>] (3 / 2) (3 / 4)) 1 ''a'' = Inr s1
       \<and> bm_compute_bm25_score rounding_arith (modele_probabiliste_init rounding_arith []
             [\<lparr>doc_id = 1, tokens = [''a'', ''a'']\<rparr>, \<lparr>doc_id = 2, tokens = [''c'', ''c'']\<rparr>,
              \<lparr>doc_id = 3, tokens = [''c'', ''c'']\<rparr>] (3 / 2) (3 / 4)) 1 ''a'' = Inr s2
       \<and> s1 * (1 - 1 / 2 ^ 53) ^ 5 \<le> s2 * (1 + 1 / 2 ^ 53) ^ 5)"
proof -
  let ?docs1 = "[\<lparr>doc_id = 1, tokens = [''a'', ''b'']\<rparr>, \<lparr>doc_id = 2, tokens = [''c'', ''c'']\<rparr>,
              \<lparr>doc_id = 3, tokens = [''c'', ''c'']\<rparr>]"
  let ?docs2 = "[\<lparr>doc_id = 1, tokens = [''a'', ''a'']\<rparr>, \<lparr>doc_id = 2, tokens = [''c'', ''c'']\<rparr>,
              \<lparr>doc_id = 3, tokens = [''c'', ''c'']\<rparr>]"
  let ?m1 = "modele_probabiliste_init exact_arith [] ?docs1 (3 / 2) (3 / 4)"
  let ?m2 = "modele_probabiliste_init exact_arith [] ?docs2 (3 / 2) (3 / 4)"
  have c1: "bm_count_documents ?docs1
       \<lparr>bm_index = [], bm_documents = ?docs1, bm_num_docs = int (length ?docs1),
        bm_k1 = 3 / 2, bm_b = 3 / 4,
        bm_tf = [], bm_df = [], bm_doc_lengths = [], bm_avg_doc_length = 0\<rparr>
     = \<lparr>bm_index = [], bm_documents = ?docs1, bm_num_docs = 3, bm_k1 = 3 / 2, bm_b = 3 / 4,
        bm_tf = [(1, [(''a'', 1), (''b'', 1)]), (2, [(''c'', 2)]), (3, [(''c'', 2)])],
        bm_df = [(''a'', 1), (''b'', 1), (''c'', 2)],
        bm_doc_lengths = [(1, 2), (2, 2), (3, 2)], bm_avg_doc_length = 0\<rparr>"
    by code_simp
  have s1: "?m1 = \<lparr>bm_index = [], bm_documents = ?docs1, bm_num_docs = 3,
       bm_k1 = 3 / 2, bm_b = 3 / 4,
       bm_tf = [(1, [(''a'', 1), (''b'', 1)]), (2, [(''c'', 2)]), (3, [(''c'', 2)])],
       bm_df = [(''a'', 1), (''b'', 1), (''c'', 2)],
       bm_doc_lengths = [(1, 2), (2, 2), (3, 2)], bm_avg_doc_length = 2\<rparr>"
    unfolding modele_probabiliste_init_def Let_def c1 by (simp add: exact_arith_def)
  have c2: "bm_count_documents ?docs2
       \<lparr>bm_index = [], bm_documents = ?docs2, bm_num_docs = int (length ?docs2),
        bm_k1 = 3 / 2, bm_b = 3 / 4,
        bm_tf = [], bm_df = [], bm_doc_lengths = [], bm_avg_doc_length = 0\<rparr>
     = \<lparr>bm_index = [], bm_documents = ?docs2, bm_num_docs = 3, bm_k1 = 3 / 2, bm_b = 3 / 4,
        bm_tf = [(1, [(''a'', 2)]), (2, [(''c'', 2)]), (3, [(''c'', 2)])],
        bm_df = [(''a'', 1), (''c'', 2)],
        bm_doc_lengths = [(1, 2), (2, 2), (3, 2)], bm_avg_doc_length = 0\<rparr>"
    by code_simp
  have s2: "?m2 = \<lparr>bm_index = [], bm_documents = ?docs2, bm_num_docs = 3,
       bm_k1 = 3 / 2, bm_b = 3 / 4,
       bm_tf = [(1, [(''a'', 2)]), (2, [(''c'', 2)]), (3, [(''c'', 2)])],
       bm_df = [(''a'', 1), (''c'', 2)],
       bm_doc_lengths = [(1, 2), (2, 2), (3, 2)], bm_avg_doc_length = 2\<rparr>"
    unfolding modele_probabiliste_init_def Let_def c2 by (simp add: exact_arith_def)
  have r: "rounds_within 0 (fl_round exact_arith)" by (rule rounds_within_exact) simp_all
  have i: "bm_compute_idf exact_arith ?m1 ''a'' = Inr (log 10 (5 / 3))"
    unfolding s1 by (simp add: bm_compute_idf_def dict_get_def exact_arith_def)
  have i0: "0 \<le> log 10 (5 / 3 :: real)" by simp
  have h: "bm_k1 ?m2 = bm_k1 ?m1" "bm_b ?m2 = bm_b ?m1" "bm_num_docs ?m2 = bm_num_docs ?m1"
    "bm_avg_doc_length ?m2 = bm_avg_doc_length ?m1"
    "dict_get (bm_df ?m2) ''a'' 0 = dict_get (bm_df ?m1) ''a'' 0"
    "map_of (bm_doc_lengths ?m1) 1 = Some 2" "map_of (bm_doc_lengths ?m2) 1 = Some 2" "(0::int) \<le> 2"
    "0 \<le> bm_k1 ?m1" "0 \<le> bm_b ?m1" "bm_b ?m1 \<le> 1"
    unfolding s1 s2 by (simp_all add: dict_get_def)
  have p: "tf_entry_positive (bm_tf ?m1) 1 ''a''" "tf_entry_positive (bm_tf ?m2) 1 ''a''"
    by (rule modele_probabiliste_init_tf_positive)+
  have t: "nested_get (bm_tf ?m1) 1 ''a'' = 1" "nested_get (bm_tf ?m2) 1 ''a'' = 2"
    unfolding s1 s2 by (simp_all add: dict_get_def nested_get_def)
  have le: "nested_get (bm_tf ?m1) 1 ''a'' \<le> nested_get (bm_tf ?m2) 1 ''a''"
    unfolding t by simp
  from bm25_score_monotone_in_tf[OF r h i i0 p le]
  have exact: "\<exists>s1 s2. bm_compute_bm25_score exact_arith ?m1 1 ''a'' = Inr s1
      \<and> bm_compute_bm25_score exact_arith ?m2 1 ''a'' = Inr s2 \<and> s1 \<le> s2"
    by simp
  let ?n1 = "modele_probabiliste_init rounding_arith [] ?docs1 (3 / 2) (3 / 4)"
  let ?n2 = "modele_probabiliste_init rounding_arith [] ?docs2 (3 / 2) (3 / 4)"
  have n1: "?n1 = \<lparr>bm_index = [], bm_documents = ?docs1, bm_num_docs = 3,
       bm_k1 = 3 / 2, bm_b = 3 / 4,
       bm_tf = [(1, [(''a'', 1), (''b'', 1)]), (2, [(''c'', 2)]), (3, [(''c'', 2)])],
       bm_df = [(''a'', 1), (''b'', 1), (''c'', 2)],
       bm_doc_lengths = [(1, 2), (2, 2), (3, 2)],
       bm_avg_doc_length = round_to_nearest 52 2\<rparr>"
    unfolding modele_probabiliste_init_def Let_def c1 by (simp add: rounding_arith_def)
  have n2: "?n2 = \<lparr>bm_index = [], bm_documents = ?docs2, bm_num_docs = 3,
       bm_k1 = 3 / 2, bm_b = 3 / 4,
       bm_tf = [(1, [(''a'', 2)]), (2, [(''c'', 2)]), (3, [(''c'', 2)])],
       bm_df = [(''a'', 1), (''c'', 2)],
       bm_doc_lengths = [(1, 2), (2, 2), (3, 2)],
       bm_avg_doc_length = round_to_nearest 52 2\<rparr>"
    unfolding modele_probabiliste_init_def Let_def c2 by (simp add: rounding_arith_def)
  have g: "bm_k1 ?n2 = bm_k1 ?n1" "bm_b ?n2 = bm_b ?n1" "bm_num_docs ?n2 = bm_num_docs ?n1"
    "bm_avg_doc_length ?n2 = bm_avg_doc_length ?n1"
    "dict_get (bm_df ?n2) ''a'' 0 = dict_get (bm_df ?n1) ''a'' 0"
    "map_of (bm_doc_lengths ?n1) 1 = Some 2" "map_of (bm_doc_lengths ?n2) 1 = Some 2" "(0::int) \<le> 2"
    "0 \<le> bm_k1 ?n1" "0 \<le> bm_b ?n1" "bm_b ?n1 \<le> 1"
    unfolding n1 n2 by (simp_all add: dict_get_def)
  have q: "tf_entry_positive (bm_tf ?n1) 1 ''a''" "tf_entry_positive (bm_tf ?n2) 1 ''a''"
    by (rule modele_probabiliste_init_tf_positive)+
  have "nested_get (bm_tf ?n1) 1 ''a'' = 1" "nested_get (bm_tf ?n2) 1 ''a'' = 2"
    unfolding n1 n2 by (simp_all add: dict_get_def nested_get_def)
  then have le': "nested_get (bm_tf ?n1) 1 ''a'' \<le> nested_get (bm_tf ?n2) 1 ''a''" by simp
  have df: "0 \<le> dict_get (bm_df ?n1) ''a'' 0" "2 * dict_get (bm_df ?n1) ''a'' 0 \<le> bm_num_docs ?n1"
    unfolding n1 by (simp_all add: dict_get_def)
  from bm_idf_nonneg_rounding_arith[OF df]
  obtain j where j: "bm_compute_idf rounding_arith ?n1 ''a'' = Inr j" "0 \<le> j" by blast
  from bm25_score_monotone_in_tf[OF rounding_arith_rounds_within g j q le']
  have rounded: "\<exists>s1 s2. bm_compute_bm25_score rounding_arith ?n1 1 ''a'' = Inr s1
      \<and> bm_compute_bm25_score rounding_arith ?n2 1 ''a'' = Inr s2
      \<and> s1 * (1 - 1 / 2 ^ 53) ^ 5 \<le> s2 * (1 + 1 / 2 ^ 53) ^ 5" .
  have idf': "\<exists>i. bm_compute_idf rounding_arith ?n1 ''a'' = Inr i \<and> 0 \<le> i" using j by blast
  from r h(1) i i0 t exact rounding_arith_rounds_within idf' rounded show ?thesis
    by (intro conjI)
qed

text \<open>
  One document of length 2, once \<open>[a, b]\<close> and once \<open>[a, a]\<close>: the document
  frequency of \<open>a\<close> is 1 of 1 document in both, the inverse document frequency
  is \<open>log10(1/3) < 0\<close>, and raising the term frequency from 1 to 2 lowers
  the score from \<open>log10(1/3)\<close> to \<open>(10/7) log10(1/3)\<close>. The values are
  those of exact arithmetic; the doubles are their roundings, \<open>-0.477\<close> and
  \<open>-0.682\<close>.
\<close>

theorem bm25_score_decreases_counterexample:
  "nested_get (bm_tf (modele_probabiliste_init exact_arith []
        [\<lparr>doc_id = 1, tokens = [''a'', ''b'']\<rparr>] (3 / 2) (3 / 4))) 1 ''a'' = 1
   \<and> nested_get (bm_tf (modele_probabiliste_init exact_arith []
        [\<lparr>doc_id = 1, tokens = [''a'', ''a'']\<rparr>] (3 / 2) (3 / 4))) 1 ''a'' = 2
   \<and> map_of (bm_doc_lengths (modele_probabiliste_init exact_arith []
        [\<lparr>doc_id = 1, tokens = [''a'', ''b'']\<rparr>] (3 / 2) (3 / 4))) 1 = Some 2
   \<and> map_of (bm_doc_lengths (modele_probabiliste_init exact_arith []
        [\<lparr>doc_id = 1, tokens = [''a'', ''a'']\<rparr>] (3 / 2) (3 / 4))) 1 = Some 2
   \<and> dict_get (bm_df (modele_probabiliste_init exact_arith []
        [\<lparr>doc_id = 1, tokens = [''a'', ''b'']\<rparr>] (3 / 2) (3 / 4))) ''a'' 0 = 1
   \<and> dict_get (bm_df (modele_probabiliste_init exact_arith []
        [\<lparr>doc_id = 1, tokens = [''a'', ''a'']\<rparr>] (3 / 2) (3 / 4))) ''a'' 0 = 1
   \<and> bm_num_docs (modele_probabiliste_init exact_arith []
        [\<lparr>doc_id = 1, tokens = [''a'', ''b'']\<rparr>] (3 / 2) (3 / 4)) = 1
   \<and> bm_num_docs (modele_probabiliste_init exact_arith []
        [\<lparr>doc_id = 1, tokens = [''a'', ''a'']\<rparr>] (3 / 2) (3 / 4)) = 1
   \<and> bm_compute_bm25_score exact_arith (modele_probabiliste_init exact_arith []
        [\<lparr>doc_id = 1, tokens = [''a'', ''b'']\<rparr>] (3 / 2) (3 / 4)) 1 ''a''
       = Inr (log 10 (1 / 3))
   \<and> bm_compute_bm25_score exact_arith (modele_probabiliste_init exact_arith []
        [\<lparr>doc_id = 1, tokens = [''a'', ''a'']\<rparr>] (3 / 2) (3 / 4)) 1 ''a''
       = Inr (10 / 7 * log 10 (1 / 3))
   \<and> 10 / 7 * log 10 (1 / 3) < log 10 (1 / 3)"
proof -
  let ?docs1 = "[\<lparr>doc_id = 1, tokens = [''a'', ''b'']\<rparr>]"
  let ?docs2 = "[\<lparr>doc_id = 1, tokens = [''a'', ''a'']\<rparr>]"
  let ?m1 = "modele_probabiliste_init exact_arith [] ?docs1 (3 / 2) (3 / 4)"
  let ?m2 = "modele_probabiliste_init exact_arith [] ?docs2 (3 / 2) (3 / 4)"
  have c1: "bm_count_documents ?docs1
       \<lparr>bm_index = [], bm_documents = ?docs1, bm_num_docs = int (length ?docs1),
        bm_k1 = 3 / 2, bm_b = 3 / 4,
        bm_tf = [], bm_df = [], bm_doc_lengths = [], bm_avg_doc_length = 0\<rparr>
     = \<lparr>bm_index = [], bm_documents = ?docs1, bm_num_docs = 1, bm_k1 = 3 / 2, bm_b = 3 / 4,
        bm_tf = [(1, [(''a'', 1), (''b'', 1)])], bm_df = [(''a'', 1), (''b'', 1)],
        bm_doc_lengths = [(1, 2)], bm_avg_doc_length = 0\<rparr>"
    by code_simp
  have s1: "?m1 = \<lparr>bm_index = [], bm_documents = ?docs1, bm_num_docs = 1,
     bm_k1 = 3 / 2, bm_b = 3 / 4,
     bm_tf = [(1, [(''a'', 1), (''b'', 1)])], bm_df = [(''a'', 1), (''b'', 1)],
     bm_doc_lengths = [(1, 2)], bm_avg_doc_length = 2\<rparr>"
    unfolding modele_probabiliste_init_def Let_def c1 by (simp add: exact_arith_def)
  have c2: "bm_count_documents ?docs2
       \<lparr>bm_index = [], bm_documents = ?docs2, bm_num_docs = int (length ?docs2),
        bm_k1 = 3 / 2, bm_b = 3 / 4,
        bm_tf = [], bm_df = [], bm_doc_lengths = [], bm_avg_doc_length = 0\<rparr>
     = \<lparr>bm_index = [], bm_documents = ?docs2, bm_num_docs = 1, bm_k1 = 3 / 2, bm_b = 3 / 4,
        bm_tf = [(1, [(''a'', 2)])], bm_df = [(''a'', 1)],
        bm_doc_lengths = [(1, 2)], bm_avg_doc_length = 0\<rparr>"
    by code_simp
  have s2: "?m2 = \<lparr>bm_index = [], bm_documents = ?docs2, bm_num_docs = 1,
     bm_k1 = 3 / 2, bm_b = 3 / 4,
     bm_tf = [(1, [(''a'', 2)])], bm_df = [(''a'', 1)],
     bm_doc_lengths = [(1, 2)], bm_avg_doc_length = 2\<rparr>"
    unfolding modele_probabiliste_init_def Let_def c2 by (simp add: exact_arith_def)
  have neg: "log 10 (1 / 3 :: real) < 0" by simp
  have lt: "10 / 7 * log 10 (1 / 3 :: real) < log 10 (1 / 3)" using neg by linarith
  have 1: "bm_compute_bm25_score exact_arith ?m1 1 ''a'' = Inr (log 10 (1 / 3))"
    unfolding s1
    by (simp add: bm_compute_bm25_score_def bm_compute_idf_def dict_get_def exact_arith_def)
  have 2: "bm_compute_bm25_score exact_arith ?m2 1 ''a'' = Inr (10 / 7 * log 10 (1 / 3))"
    unfolding s2
    by (simp add: bm_compute_bm25_score_def bm_compute_idf_def dict_get_def exact_arith_def)
  have 3: "nested_get (bm_tf ?m1) 1 ''a'' = 1" "nested_get (bm_tf ?m2) 1 ''a'' = 2"
    "map_of (bm_doc_lengths ?m1) 1 = Some 2" "map_of (bm_doc_lengths ?m2) 1 = Some 2"
    "dict_get (bm_df ?m1) ''a'' 0 = 1" "dict_get (bm_df ?m2) ''a'' 0 = 1"
    "bm_num_docs ?m1 = 1" "bm_num_docs ?m2 = 1"
    unfolding s1 s2 by (simp_all add: dict_get_def nested_get_def)
  from 1 2 3 lt show ?thesis by blast
qed

subsection \<open>Ranked results\<close>

lemma ranked_stably_slice:
  "ranked_stably candidates (slice_to (sorted_by_score_desc candidates) top_k)"
proof -
  define sorted_scores where "sorted_scores = sorted_by_score_desc candidates"
  obtain n where res: "slice_to sorted_scores top_k = take n sorted_scores"
    by (cases "0 \<le> top_k") (simp_all add: slice_to_def)
  have "sorted (map (\<lambda>x. - snd x) sorted_scores)"
    by (simp add: sorted_scores_def sorted_by_score_desc_def)
  then have "sorted_wrt (\<lambda>p q. - snd p \<le> - snd q) sorted_scores"
    by (simp add: sorted_map)
  then have srt: "sorted_wrt (\<lambda>p q. snd q \<le> snd p) sorted_scores" by simp
  have "sorted_wrt (\<lambda>p q. snd q \<le> snd p) (take n sorted_scores)"
    using srt by (metis append_take_drop_id sorted_wrt_append)
  moreover have "prefix (filter (\<lambda>p. snd p = s) (take n sorted_scores))
                        (filter (\<lambda>p. snd p = s) candidates)" for s
  proof -
    have "filter (\<lambda>p. - snd p = - s) sorted_scores = filter (\<lambda>p. - snd p = - s) candidates"
      unfolding sorted_scores_def sorted_by_score_desc_def by (rule sort_key_stable)
    then have eq: "filter (\<lambda>p. snd p = s) sorted_scores = filter (\<lambda>p. snd p = s) candidates"
      by simp
    have "filter (\<lambda>p. snd p = s) sorted_scores
        = filter (\<lambda>p. snd p = s) (take n sorted_scores) @ filter (\<lambda>p. snd p = s) (drop n sorted_scores)"
      by (metis append_take_drop_id filter_append)
    then show ?thesis unfolding eq[symmetric] by (simp add: prefix_def)
  qed
  ultimately show ?thesis
    unfolding sorted_scores_def[symmetric] res ranked_stably_def by (simp add: list_all_iff)
qed

lemma ranked_stably_Nil: "ranked_stably candidates []"
  by (simp add: ranked_stably_def)


lemma first_occurrences_snoc:
  "first_occurrences (xs @ [k])
     = (if k \<in> set xs then first_occurrences xs else first_occurrences xs @ [k])"
  by (simp add: first_occurrences_def)

lemma set_first_occurrences: "set (first_occurrences xs) = set xs"
  by (simp add: first_occurrences_def)

lemma first_occurrences_Nil: "first_occurrences [] = []"
  by (simp add: first_occurrences_def)

lemma first_occurrences_distinct: "distinct xs \<Longrightarrow> first_occurrences xs = xs"
  by (simp add: first_occurrences_def distinct_remdups_id)

text \<open>
  \<open>d[k] = v\<close> on a dictionary whose keys are the first occurrences of the
  keys inserted so far.
\<close>

lemma update_keys_first_occurrences:
  assumes "map fst al = first_occurrences ps"
  shows "map fst (AList.update k v al) = first_occurrences (ps @ [k])"
proof -
  have "k \<in> fst ` set al \<longleftrightarrow> k \<in> set ps"
    using assms set_first_occurrences[of ps] by (metis set_map)
  then show ?thesis using assms
    by (simp add: update_keys first_occurrences_snoc set_first_occurrences)
qed

lemma lm_score_documents_keys:
  "lm_score_documents m query_terms docs doc_scores = Inr candidates \<Longrightarrow>
   map fst doc_scores = first_occurrences ps \<Longrightarrow>
   map fst candidates = first_occurrences (ps @ map doc_id docs)"
proof (induction docs arbitrary: doc_scores ps)
  case Nil
  then show ?case by simp
next
  case (Cons doc docs)
  from Cons.prems(1) obtain score where
    rec: "lm_score_documents m query_terms docs (AList.update (doc_id doc) score doc_scores)
                = Inr candidates"
    by (cases "lm_score_terms m (doc_id doc) query_terms 0") auto
  have "map fst (AList.update (doc_id doc) score doc_scores) = first_occurrences (ps @ [doc_id doc])"
    using Cons.prems(2) by (rule update_keys_first_occurrences)
  from Cons.IH[OF rec this] show ?case by simp
qed

lemma bm_score_postings_keys:
  "bm_score_postings fm m tm ds doc_scores = Inr candidates \<Longrightarrow>
   map fst doc_scores = first_occurrences ps \<Longrightarrow>
   map fst candidates = first_occurrences (ps @ ds)"
proof (induction ds arbitrary: doc_scores ps)
  case Nil
  then show ?case by simp
next
  case (Cons d ds)
  from Cons.prems(1) obtain score where
    rec: "bm_score_postings fm m tm ds
            (AList.update d (fl_round fm (dict_get doc_scores d 0 + score)) doc_scores)
          = Inr candidates"
    by (cases "bm_compute_bm25_score fm m d tm") auto
  have "map fst (AList.update d (fl_round fm (dict_get doc_scores d 0 + score)) doc_scores)
          = first_occurrences (ps @ [d])"
    using Cons.prems(2) by (rule update_keys_first_occurrences)
  from Cons.IH[OF rec this] show ?case by simp
qed

lemma bm_score_terms_keys:
  "bm_score_terms fm m set_order query_terms doc_scores = Inr candidates \<Longrightarrow>
   map fst doc_scores = first_occurrences ps \<Longrightarrow>
   map fst candidates = first_occurrences (ps @ bm_visit_order m set_order query_terms)"
proof (induction query_terms arbitrary: doc_scores ps)
  case Nil
  then show ?case by (simp add: bm_visit_order_def)
next
  case (Cons tm rest)
  show ?case
  proof (cases "map_of (bm_index m) tm")
    case None
    then have "bm_score_terms fm m set_order rest doc_scores = Inr candidates"
      using Cons.prems(1) by simp
    from Cons.IH[OF this Cons.prems(2)] show ?thesis using None by (simp add: bm_visit_order_def)
  next
    case (Some doc_ids)
    from Cons.prems(1) Some obtain scores' where
      post: "bm_score_postings fm m tm (set_order doc_ids) doc_scores = Inr scores'"
      and rec: "bm_score_terms fm m set_order rest scores' = Inr candidates"
      by (cases "bm_score_postings fm m tm (set_order doc_ids) doc_scores") auto
    have "map fst scores' = first_occurrences (ps @ set_order doc_ids)"
      using post Cons.prems(2) by (rule bm_score_postings_keys)
    from Cons.IH[OF rec this] show ?thesis using Some by (simp add: bm_visit_order_def)
  qed
qed

lemma vs_similarities_keys:
  "vs_similarities query_vector items scores = Inr candidates \<Longrightarrow>
   map fst candidates = map fst scores @ map fst items"
proof (induction items arbitrary: scores)
  case Nil
  then show ?case by simp
next
  case (Cons item items)
  obtain d doc_vector where item: "item = (d, doc_vector)" by (cases item)
  from Cons.prems obtain similarity where
    rec: "vs_similarities query_vector items (scores @ [(d, similarity)]) = Inr candidates"
    unfolding item by (cases "np_dot query_vector doc_vector") auto
  from Cons.IH[OF rec] show ?case by (simp add: item)
qed

lemma vs_count_tokens_doc_vectors:
  "vs_doc_vectors (vs_count_tokens d toks m) = vs_doc_vectors m"
  by (induction toks arbitrary: m) (simp_all add: Let_def)

lemma vs_count_documents_doc_vectors:
  "vs_doc_vectors (vs_count_documents docs m) = vs_doc_vectors m"
  by (induction docs arbitrary: m) (simp_all add: vs_count_tokens_doc_vectors)

lemma vs_compute_tfidf_vectors_keys:
  "vs_compute_tfidf_vectors docs m = Inr m' \<Longrightarrow>
   map fst (vs_doc_vectors m) = first_occurrences ps \<Longrightarrow>
   map fst (vs_doc_vectors m') = first_occurrences (ps @ map doc_id docs)"
proof (induction docs arbitrary: m ps)
  case Nil
  then show ?case by simp
next
  case (Cons doc docs)
  from Cons.prems(1) obtain v where
    rec: "vs_compute_tfidf_vectors docs
            (m\<lparr>vs_doc_vectors := AList.update (doc_id doc) (normalise v) (vs_doc_vectors m)\<rparr>)
          = Inr m'"
    by (cases "vs_fill_doc_vector m (doc_id doc) (vs_vocabulary m)
                 (np_zeros (length (vs_vocabulary m)))") auto
  have "map fst (AList.update (doc_id doc) (normalise v) (vs_doc_vectors m))
          = first_occurrences (ps @ [doc_id doc])"
    using Cons.prems(2) by (rule update_keys_first_occurrences)
  then have "map fst (vs_doc_vectors
               (m\<lparr>vs_doc_vectors := AList.update (doc_id doc) (normalise v) (vs_doc_vectors m)\<rparr>))
          = first_occurrences (ps @ [doc_id doc])" by simp
  from Cons.IH[OF rec this] show ?case by simp
qed

lemma modele_vectoriel_init_keys:
  assumes "modele_vectoriel_init index_inverse documents = Inr m"
  shows "map fst (vs_doc_vectors m) = first_occurrences (map doc_id documents)"
proof -
  define vocabulary where "vocabulary = sort (map fst index_inverse)"
  define m0 where "m0 = \<lparr>vs_index = index_inverse, vs_documents = documents,
                vs_num_docs = int (length documents), vs_vocabulary = vocabulary,
                vs_term_to_idx =
                  fold (\<lambda>(idx, term) d. AList.update term idx d)
                    (zip [0..<length vocabulary] vocabulary) [],
                vs_tf = [], vs_df = [], vs_doc_vectors = []\<rparr>"
  have run: "vs_compute_tfidf_vectors documents (vs_count_documents documents m0) = Inr m"
    using assms by (simp add: modele_vectoriel_init_def Let_def m0_def vocabulary_def)
  have "map fst (vs_doc_vectors (vs_count_documents documents m0)) = first_occurrences []"
    by (simp add: vs_count_documents_doc_vectors m0_def first_occurrences_Nil)
  from vs_compute_tfidf_vectors_keys[OF run this] show ?thesis by simp
qed

text \<open>
  Claim C8, as the code has it. For each of the three ranking models, the
  list that \<open>search\<close> returns is in descending order of score, and results
  with equal scores stand in the order of the candidates: no tie is broken by
  document identifier. The candidates stand in the order in which their
  identifiers were first inserted: for the language model the order of first
  occurrence in the corpus, for BM25 the order in which the loops over the
  query terms and over each posting set first visit a document, for the
  vector-space model the order of the keys of \<open>doc_vectors\<close>, which the
  constructor inserts in the order of first occurrence in the corpus. For a
  corpus with pairwise distinct identifiers the order of first occurrence is
  the order of the corpus.
\<close>

theorem search_results_ranked_stably:
  "(lm_search lm preprocess_text query top_k = Inr lm_results
      \<and> lm_score_documents lm (preprocess_text query) (lm_documents lm) [] = Inr lm_candidates
      \<longrightarrow> ranked_stably lm_candidates lm_results
          \<and> map fst lm_candidates = first_occurrences (map doc_id (lm_documents lm)))
   \<and> (bm_search fm bm set_order preprocess_text query top_k = Inr bm_results
      \<and> bm_score_terms fm bm set_order (preprocess_text query) [] = Inr bm_candidates
      \<longrightarrow> ranked_stably bm_candidates bm_results
          \<and> map fst bm_candidates
              = first_occurrences (bm_visit_order bm set_order (preprocess_text query)))
   \<and> (vs_search vs preprocess_text query top_k = Inr vs_results
      \<and> vs_candidates vs (preprocess_text query) = Inr vs_candidates_list
      \<longrightarrow> ranked_stably vs_candidates_list vs_results
          \<and> map fst vs_candidates_list = map fst (vs_doc_vectors vs))
   \<and> (modele_vectoriel_init index_inverse documents = Inr vs
      \<longrightarrow> map fst (vs_doc_vectors vs) = first_occurrences (map doc_id documents))
   \<and> (distinct (map doc_id documents)
      \<longrightarrow> first_occurrences (map doc_id documents) = map doc_id documents)"
proof (intro conjI impI)
  assume a: "lm_search lm preprocess_text query top_k = Inr lm_results
      \<and> lm_score_documents lm (preprocess_text query) (lm_documents lm) [] = Inr lm_candidates"
  then show "ranked_stably lm_candidates lm_results"
    by (auto simp: lm_search_def Let_def ranked_stably_slice ranked_stably_Nil split: if_splits)
  from a have "lm_score_documents lm (preprocess_text query) (lm_documents lm) [] = Inr lm_candidates"
    by simp
  from lm_score_documents_keys[OF this, of "[]"]
  show "map fst lm_candidates = first_occurrences (map doc_id (lm_documents lm))"
    by (simp add: first_occurrences_Nil)
next
  assume a: "bm_search fm bm set_order preprocess_text query top_k = Inr bm_results
      \<and> bm_score_terms fm bm set_order (preprocess_text query) [] = Inr bm_candidates"
  then show "ranked_stably bm_candidates bm_results"
    by (auto simp: bm_search_def Let_def ranked_stably_slice ranked_stably_Nil split: if_splits)
  from a have "bm_score_terms fm bm set_order (preprocess_text query) [] = Inr bm_candidates"
    by simp
  from bm_score_terms_keys[OF this, of "[]"]
  show "map fst bm_candidates
          = first_occurrences (bm_visit_order bm set_order (preprocess_text query))"
    by (simp add: first_occurrences_Nil)
next
  assume a: "vs_search vs preprocess_text query top_k = Inr vs_results
      \<and> vs_candidates vs (preprocess_text query) = Inr vs_candidates_list"
  then show "ranked_stably vs_candidates_list vs_results"
    by (auto simp: vs_search_def Let_def ranked_stably_slice ranked_stably_Nil split: if_splits)
  from a obtain query_vector where
    "vs_similarities query_vector (vs_doc_vectors vs) [] = Inr vs_candidates_list"
    by (auto simp: vs_candidates_def split: sum.splits)
  from vs_similarities_keys[OF this]
  show "map fst vs_candidates_list = map fst (vs_doc_vectors vs)" by simp
next
  assume "modele_vectoriel_init index_inverse documents = Inr vs"
  then show "map fst (vs_doc_vectors vs) = first_occurrences (map doc_id documents)"
    by (rule modele_vectoriel_init_keys)
next
  assume "distinct (map doc_id documents)"
  then show "first_occurrences (map doc_id documents) = map doc_id documents"
    by (rule first_occurrences_distinct)
qed

text \<open>
  One search in each model: the language model over the corpus of documents
  2 and 1, BM25 over the same corpus with the posting set iterated in
  ascending order and \<open>top_k = 1\<close>, the vector-space model over documents 1
  and 2.
\<close>

theorem search_results_ranked_stably_witness:
  "lm_search (modele_langue_init []
                [\<lparr>doc_id = 2, tokens = [''a'']\<rparr>, \<lparr>doc_id = 1, tokens = [''a'']\<rparr>] (1 / 2))
       (\<lambda>q. [q]) ''a'' 10 = Inr [(2, 0), (1, 0)]
   \<and> lm_score_documents
         (modele_langue_init []
            [\<lparr>doc_id = 2, tokens = [''a'']\<rparr>, \<lparr>doc_id = 1, tokens = [''a'']\<rparr>] (1 / 2))
         [''a'']
         (lm_documents (modele_langue_init []
            [\<lparr>doc_id = 2, tokens = [''a'']\<rparr>, \<lparr>doc_id = 1, tokens = [''a'']\<rparr>] (1 / 2))) []
       = Inr [(2, 0), (1, 0)]
   \<and> ranked_stably [(2, 0), (1, 0)] [(2, 0), (1, 0)]
   \<and> first_occurrences (map doc_id (lm_documents (modele_langue_init []
            [\<lparr>doc_id = 2, tokens = [''a'']\<rparr>, \<lparr>doc_id = 1, tokens = [''a'']\<rparr>] (1 / 2)))) = [2, 1]
   \<and> bm_search exact_arith (modele_probabiliste_init exact_arith [(''a'', {|2, 1|})]
                   [\<lparr>doc_id = 2, tokens = [''a'']\<rparr>, \<lparr>doc_id = 1, tokens = [''a'']\<rparr>]
                   (3 / 2) (3 / 4))
         sorted_list_of_fset (\<lambda>q. [q]) ''a'' 1 = Inr [(1, log 10 (1 / 5))]
   \<and> bm_score_terms exact_arith (modele_probabiliste_init exact_arith [(''a'', {|2, 1|})]
                   [\<lparr>doc_id = 2, tokens = [''a'']\<rparr>, \<lparr>doc_id = 1, tokens = [''a'']\<rparr>]
                   (3 / 2) (3 / 4))
         sorted_list_of_fset [''a''] [] = Inr [(1, log 10 (1 / 5)), (2, log 10 (1 / 5))]
   \<and> ranked_stably [(1, log 10 (1 / 5)), (2, log 10 (1 / 5))] [(1, log 10 (1 / 5))]
   \<and> first_occurrences (bm_visit_order (modele_probabiliste_init exact_arith [(''a'', {|2, 1|})]
                   [\<lparr>doc_id = 2, tokens = [''a'']\<rparr>, \<lparr>doc_id = 1, tokens = [''a'']\<rparr>]
                   (3 / 2) (3 / 4)) sorted_list_of_fset [''a'']) = [1, 2]
   \<and> modele_vectoriel_init [(''a'', {|1|})]
         [\<lparr>doc_id = 1, tokens = [''a'']\<rparr>, \<lparr>doc_id = 2, tokens = [''b'']\<rparr>]
       = Inr \<lparr>vs_index = [(''a'', {|1|})],
              vs_documents = [\<lparr>doc_id = 1, tokens = [''a'']\<rparr>, \<lparr>doc_id = 2, tokens = [''b'']\<rparr>],
              vs_num_docs = 2, vs_vocabulary = [''a''], vs_term_to_idx = [(''a'', 0)],
              vs_tf = [(1, [(''a'', 1)])], vs_df = [(''a'', 1)],
              vs_doc_vectors = [(1, [1]), (2, [0])]\<rparr>
   \<and> vs_search \<lparr>vs_index = [(''a'', {|1|})],
              vs_documents = [\<lparr>doc_id = 1, tokens = [''a'']\<rparr>, \<lparr>doc_id = 2, tokens = [''b'']\<rparr>],
              vs_num_docs = 2, vs_vocabulary = [''a''], vs_term_to_idx = [(''a'', 0)],
              vs_tf = [(1, [(''a'', 1)])], vs_df = [(''a'', 1)],
              vs_doc_vectors = [(1, [1]), (2, [0])]\<rparr>
         (\<lambda>q. [q]) ''a'' 10 = Inr [(1, 1), (2, 0)]
   \<and> vs_candidates \<lparr>vs_index = [(''a'', {|1|})],
              vs_documents = [\<lparr>doc_id = 1, tokens = [''a'']\<rparr>, \<lparr>doc_id = 2, tokens = [''b'']\<rparr>],
              vs_num_docs = 2, vs_vocabulary = [''a''], vs_term_to_idx = [(''a'', 0)],
              vs_tf = [(1, [(''a'', 1)])], vs_df = [(''a'', 1)],
              vs_doc_vectors = [(1, [1]), (2, [0])]\<rparr>
         [''a''] = Inr [(1, 1), (2, 0)]
   \<and> ranked_stably [(1, 1), (2, 0)] [(1, 1), (2, 0)]
   \<and> distinct (map doc_id [\<lparr>doc_id = 1, tokens = [''a'']\<rparr>, \<lparr>doc_id = 2, tokens = [''b'']\<rparr>])
   \<and> first_occurrences (map doc_id [\<lparr>doc_id = 1, tokens = [''a'']\<rparr>, \<lparr>doc_id = 2, tokens = [''b'']\<rparr>])
       = [1, 2]"
proof -
  let ?lm = "modele_langue_init []
                [\<lparr>doc_id = 2, tokens = [''a'']\<rparr>, \<lparr>doc_id = 1, tokens = [''a'']\<rparr>] (1 / 2)"
  let ?bm = "modele_probabiliste_init exact_arith [(''a'', {|2, 1|})]
                   [\<lparr>doc_id = 2, tokens = [''a'']\<rparr>, \<lparr>doc_id = 1, tokens = [''a'']\<rparr>]
                   (3 / 2) (3 / 4)"
  let ?docs = "[\<lparr>doc_id = 1, tokens = [''a'']\<rparr>, \<lparr>doc_id = 2, tokens = [''b'']\<rparr>]"
  let ?vs = "\<lparr>vs_index = [(''a'', {|1|})],
              vs_documents = [\<lparr>doc_id = 1, tokens = [''a'']\<rparr>, \<lparr>doc_id = 2, tokens = [''b'']\<rparr>],
              vs_num_docs = 2, vs_vocabulary = [''a''], vs_term_to_idx = [(''a'', 0)],
              vs_tf = [(1, [(''a'', 1)])], vs_df = [(''a'', 1)],
              vs_doc_vectors = [(1, [1]), (2, [0::real])]\<rparr>"
  have lm_state: "?lm = \<lparr>lm_index = [],
      lm_documents = [\<lparr>doc_id = 2, tokens = [''a'']\<rparr>, \<lparr>doc_id = 1, tokens = [''a'']\<rparr>],
      lm_num_docs = 2, lm_lambda_param = 1 / 2,
      lm_tf = [(2, [(''a'', 1)]), (1, [(''a'', 1)])], lm_doc_lengths = [(2, 1), (1, 1)],
      lm_collection_tf = [(''a'', 2)], lm_collection_length = 2,
      lm_collection_prob = [(''a'', 1)]\<rparr>"
    by code_simp
  have lm_c: "lm_score_documents ?lm [''a''] (lm_documents ?lm) [] = Inr [(2, 0), (1, 0)]"
    unfolding lm_state
    by (simp add: lm_term_contribution_def lm_compute_term_probability_def nested_get_def
          dict_get_def)
  have lm_s: "lm_search ?lm (\<lambda>q. [q]) ''a'' 10 = Inr [(2, 0), (1, 0)]"
    unfolding lm_state
    by (simp add: lm_search_def lm_term_contribution_def lm_compute_term_probability_def
          nested_get_def dict_get_def sorted_by_score_desc_def slice_to_def)
  have bm_count: "bm_count_documents
       [\<lparr>doc_id = 2, tokens = [''a'']\<rparr>, \<lparr>doc_id = 1, tokens = [''a'']\<rparr>]
       \<lparr>bm_index = [(''a'', {|2, 1|})],
        bm_documents = [\<lparr>doc_id = 2, tokens = [''a'']\<rparr>, \<lparr>doc_id = 1, tokens = [''a'']\<rparr>],
        bm_num_docs = int (length [\<lparr>doc_id = 2, tokens = [''a'']\<rparr>, \<lparr>doc_id = 1, tokens = [''a'']\<rparr>]),
        bm_k1 = 3 / 2, bm_b = 3 / 4,
        bm_tf = [], bm_df = [], bm_doc_lengths = [], bm_avg_doc_length = 0\<rparr>
     = \<lparr>bm_index = [(''a'', {|2, 1|})],
        bm_documents = [\<lparr>doc_id = 2, tokens = [''a'']\<rparr>, \<lparr>doc_id = 1, tokens = [''a'']\<rparr>],
        bm_num_docs = 2, bm_k1 = 3 / 2, bm_b = 3 / 4,
        bm_tf = [(2, [(''a'', 1)]), (1, [(''a'', 1)])], bm_df = [(''a'', 2)],
        bm_doc_lengths = [(2, 1), (1, 1)], bm_avg_doc_length = 0\<rparr>"
    by code_simp
  have bm_state: "?bm = \<lparr>bm_index = [(''a'', {|2, 1|})],
       bm_documents = [\<lparr>doc_id = 2, tokens = [''a'']\<rparr>, \<lparr>doc_id = 1, tokens = [''a'']\<rparr>],
       bm_num_docs = 2, bm_k1 = 3 / 2, bm_b = 3 / 4,
       bm_tf = [(2, [(''a'', 1)]), (1, [(''a'', 1)])], bm_df = [(''a'', 2)],
       bm_doc_lengths = [(2, 1), (1, 1)], bm_avg_doc_length = 1\<rparr>"
    unfolding modele_probabiliste_init_def Let_def bm_count by (simp add: exact_arith_def)
  have order: "sorted_list_of_fset {|2, 1::int|} = [1, 2]"
    by (simp add: sorted_list_of_fset.rep_eq)
  have bm_c: "bm_score_terms exact_arith ?bm sorted_list_of_fset [''a''] []
                = Inr [(1, log 10 (1 / 5)), (2, log 10 (1 / 5))]"
    unfolding bm_state
    by (simp add: order bm_compute_bm25_score_def bm_compute_idf_def dict_get_def exact_arith_def)
  have bm_s: "bm_search exact_arith ?bm sorted_list_of_fset (\<lambda>q. [q]) ''a'' 1
                = Inr [(1, log 10 (1 / 5))]"
    unfolding bm_state
    by (simp add: bm_search_def order bm_compute_bm25_score_def bm_compute_idf_def
          dict_get_def exact_arith_def sorted_by_score_desc_def slice_to_def)
  have "0 < log 10 (2::real)" by (subst zero_less_log_cancel_iff) simp_all
  then have l2: "log 10 (2::real) \<noteq> 0" by linarith
  have vs_i: "modele_vectoriel_init [(''a'', {|1|})] ?docs = Inr ?vs"
    using l2
    by (simp add: modele_vectoriel_init_def nested_incr_def nested_get_def dict_get_def
          np_zeros_def np_norm_def normalise_def vector_set_def vs_idf_def py_log10_def Let_def)
  have vs_c: "vs_candidates ?vs [''a''] = Inr [(1, 1), (2, 0)]"
    using l2
    by (simp add: vs_candidates_def vs_compute_query_vector_def dict_get_def np_zeros_def
          np_norm_def normalise_def vector_set_def vs_idf_def py_log10_def np_dot_def)
  have vs_s: "vs_search ?vs (\<lambda>q. [q]) ''a'' 10 = Inr [(1, 1), (2, 0)]"
    using l2
    by (simp add: vs_search_def vs_candidates_def vs_compute_query_vector_def dict_get_def
          np_zeros_def np_norm_def normalise_def vector_set_def vs_idf_def py_log10_def np_dot_def
          sorted_by_score_desc_def slice_to_def)
  have dist: "distinct (map doc_id ?docs)" by simp
  note T = search_results_ranked_stably[where lm="?lm" and preprocess_text="\<lambda>q. [q]"
      and query="''a''" and top_k=10 and lm_results="[(2, 0), (1, 0)]"
      and lm_candidates="[(2, 0), (1, 0)]" and vs="?vs" and vs_results="[(1, 1), (2, 0)]"
      and vs_candidates_list="[(1, 1), (2, 0)]" and index_inverse="[(''a'', {|1|})]"
      and documents="?docs"]
  note U = search_results_ranked_stably[where bm="?bm" and fm=exact_arith
      and preprocess_text="\<lambda>q. [q]"
      and query="''a''" and top_k=1 and set_order=sorted_list_of_fset
      and bm_results="[(1, log 10 (1 / 5))]"
      and bm_candidates="[(1, log 10 (1 / 5)), (2, log 10 (1 / 5))]"]
  from T lm_s lm_c have 1: "ranked_stably [(2, 0), (1, 0)] [(2, 0), (1, 0)]"
    "first_occurrences (map doc_id (lm_documents ?lm)) = [2, 1]" by simp_all
  from U bm_s bm_c have 2:
    "ranked_stably [(1, log 10 (1 / 5)), (2, log 10 (1 / 5))] [(1, log 10 (1 / 5))]"
    "first_occurrences (bm_visit_order ?bm sorted_list_of_fset [''a'']) = [1, 2]" by simp_all
  from T vs_s vs_c have 3: "ranked_stably [(1, 1), (2, 0)] [(1, 1), (2, 0)]" by simp
  from T dist have 4: "first_occurrences (map doc_id ?docs) = [1, 2]" by simp
  from lm_s lm_c bm_s bm_c vs_i vs_s vs_c dist 1 2 3 4 show ?thesis by blast
qed

text \<open>
  Two documents with identifiers 2 and 1, in this order, and the same
  content: in the language model the scores are equal and document 2 is
  returned first. In BM25, for one index and one query, the first result is
  document 1 when the posting set \<open>{1, 9}\<close> is iterated as \<open>1, 9\<close> and
  document 9 when it is iterated as \<open>9, 1\<close>; both are iteration orders of
  equal Python sets (built by adding 1 then 9, and 9 then 1).
\<close>

theorem search_ties_not_by_doc_id_counterexample:
  "lm_search (modele_langue_init []
                [\<lparr>doc_id = 2, tokens = [''a'']\<rparr>, \<lparr>doc_id = 1, tokens = [''a'']\<rparr>] (1 / 2))
       (\<lambda>q. [q]) ''a'' 10 = Inr [(2, 0), (1, 0)]
   \<and> \<not> sorted_desc_ties_by_doc_id [(2, 0), (1, 0)]
   \<and> fset_of_list [1, 9] = {|1, 9 :: int|} \<and> fset_of_list [9, 1] = {|1, 9 :: int|}
   \<and> bm_search exact_arith
         (modele_probabiliste_init exact_arith [(''a'', {|1, 9|})]
            [\<lparr>doc_id = 1, tokens = [''a'']\<rparr>, \<lparr>doc_id = 9, tokens = [''a'']\<rparr>] (3 / 2) (3 / 4))
         (\<lambda>doc_ids. [1, 9]) (\<lambda>q. [q]) ''a'' 1 = Inr [(1, log 10 (1 / 5))]
   \<and> bm_search exact_arith
         (modele_probabiliste_init exact_arith [(''a'', {|1, 9|})]
            [\<lparr>doc_id = 1, tokens = [''a'']\<rparr>, \<lparr>doc_id = 9, tokens = [''a'']\<rparr>] (3 / 2) (3 / 4))
         (\<lambda>doc_ids. [9, 1]) (\<lambda>q. [q]) ''a'' 1 = Inr [(9, log 10 (1 / 5))]
   \<and> [(1 :: int, log 10 (1 / 5))] \<noteq> [(9, log 10 (1 / 5))]"
proof -
  let ?lm = "modele_langue_init []
                [\<lparr>doc_id = 2, tokens = [''a'']\<rparr>, \<lparr>doc_id = 1, tokens = [''a'']\<rparr>] (1 / 2)"
  let ?docs = "[\<lparr>doc_id = 1, tokens = [''a'']\<rparr>, \<lparr>doc_id = 9, tokens = [''a'']\<rparr>]"
  let ?bm = "modele_probabiliste_init exact_arith [(''a'', {|1, 9|})] ?docs (3 / 2) (3 / 4)"
  have lm_state: "?lm = \<lparr>lm_index = [],
      lm_documents = [\<lparr>doc_id = 2, tokens = [''a'']\<rparr>, \<lparr>doc_id = 1, tokens = [''a'']\<rparr>],
      lm_num_docs = 2, lm_lambda_param = 1 / 2,
      lm_tf = [(2, [(''a'', 1)]), (1, [(''a'', 1)])], lm_doc_lengths = [(2, 1), (1, 1)],
      lm_collection_tf = [(''a'', 2)], lm_collection_length = 2,
      lm_collection_prob = [(''a'', 1)]\<rparr>"
    by code_simp
  have lm: "lm_search ?lm (\<lambda>q. [q]) ''a'' 10 = Inr [(2, 0), (1, 0)]"
    unfolding lm_state
    by (simp add: lm_search_def lm_term_contribution_def lm_compute_term_probability_def
          nested_get_def dict_get_def sorted_by_score_desc_def slice_to_def)
  have ties: "\<not> sorted_desc_ties_by_doc_id [(2, 0), (1, 0)]"
    by (simp add: sorted_desc_ties_by_doc_id_def)
  have bm_count: "bm_count_documents ?docs
       \<lparr>bm_index = [(''a'', {|1, 9|})], bm_documents = ?docs,
        bm_num_docs = int (length ?docs), bm_k1 = 3 / 2, bm_b = 3 / 4,
        bm_tf = [], bm_df = [], bm_doc_lengths = [], bm_avg_doc_length = 0\<rparr>
     = \<lparr>bm_index = [(''a'', {|1, 9|})], bm_documents = ?docs,
        bm_num_docs = 2, bm_k1 = 3 / 2, bm_b = 3 / 4,
        bm_tf = [(1, [(''a'', 1)]), (9, [(''a'', 1)])], bm_df = [(''a'', 2)],
        bm_doc_lengths = [(1, 1), (9, 1)], bm_avg_doc_length = 0\<rparr>"
    by code_simp
  have bm_state: "?bm = \<lparr>bm_index = [(''a'', {|1, 9|})], bm_documents = ?docs,
       bm_num_docs = 2, bm_k1 = 3 / 2, bm_b = 3 / 4,
       bm_tf = [(1, [(''a'', 1)]), (9, [(''a'', 1)])], bm_df = [(''a'', 2)],
       bm_doc_lengths = [(1, 1), (9, 1)], bm_avg_doc_length = 1\<rparr>"
    unfolding modele_probabiliste_init_def Let_def bm_count by (simp add: exact_arith_def)
  have b1: "bm_search exact_arith ?bm (\<lambda>doc_ids. [1, 9]) (\<lambda>q. [q]) ''a'' 1
              = Inr [(1, log 10 (1 / 5))]"
    unfolding bm_state
    by (simp add: bm_search_def bm_compute_bm25_score_def bm_compute_idf_def
          dict_get_def exact_arith_def sorted_by_score_desc_def slice_to_def)
  have b2: "bm_search exact_arith ?bm (\<lambda>doc_ids. [9, 1]) (\<lambda>q. [q]) ''a'' 1
              = Inr [(9, log 10 (1 / 5))]"
    unfolding bm_state
    by (simp add: bm_search_def bm_compute_bm25_score_def bm_compute_idf_def
          dict_get_def exact_arith_def sorted_by_score_desc_def slice_to_def)
  have sets: "fset_of_list [1, 9] = {|1, 9 :: int|}" "fset_of_list [9, 1] = {|1, 9 :: int|}"
    by auto
  have ne: "[(1 :: int, log 10 (1 / 5))] \<noteq> [(9, log 10 (1 / 5))]" by simp
  from lm ties sets b1 b2 ne show ?thesis by (intro conjI)
qed

end
